theory Spec2Isabelle
  imports Main
begin

section \<open>The run context, the user interface and the steps\<close>

text \<open>
  The runner file of the package \<^verbatim>\<open>common\<close> decorates every step of a build with one
  of three failure policies. The model below follows that file function by function.
  What the Go code does to its surroundings is made explicit: the state bag is a finite
  map, every call of the user interface is appended to a log, and a type assertion that
  fails is a panic value.
\<close>

text \<open>
  Modelled from the spec: \<^verbatim>\<open>multistep.StepAction\<close> is declared in the multistep package,
  which is not among the sources; the spec gives the enumeration Continue, Retry, Halt,
  and these are the three constants the runner file names.
\<close>

datatype StepAction = ActionContinue | ActionRetry | ActionHalt

text \<open>
  Modelled from the spec: the interface \<^verbatim>\<open>packer.Ui\<close> is declared in another package; the
  runner file calls its methods \<^verbatim>\<open>Say\<close>, \<^verbatim>\<open>Error\<close> and \<^verbatim>\<open>Ask\<close>. A handle is a number: two
  handles are the same interface value iff the numbers agree.
\<close>

type_synonym Ui = nat

text \<open>
  Modelled from the spec: \<^verbatim>\<open>MultistepDebugFn(ui)\<close>, the pause hook of the spec, is defined
  in a file of the package that is not among the sources. The factory only passes its
  result on, so it is kept as an uninterpreted constructor.
\<close>

datatype DebugPauseFn = MultistepDebugFn Ui

text \<open>
  The dynamically typed values of the state bag (\<^verbatim>\<open>interface{}\<close>). \<open>VInt\<close> is a Go
  \<^verbatim>\<open>int\<close>; the only arithmetic on it is the comparison \<^verbatim>\<open>retries < maxRetries\<close> and the
  increment of a counter that stays below it, so no operation can overflow and the
  mathematical integers are exact.
\<close>

datatype val =
    VNil
  | VInt int
  | VBool bool
  | VStr string
  | VErr string
  | VUi Ui
  | VPauseFn DebugPauseFn

type_synonym StateBag = "string \<rightharpoonup> val"

text \<open>
  The messages the supervisor formats. Each constructor stands for one format string:
  \<^item> \<open>RetryingStep n\<close>: \<^verbatim>\<open>"Retrying step: %s"\<close>
  \<^item> \<open>StepFailed n\<close>: \<^verbatim>\<open>"Step %q failed"\<close>
  \<^item> \<open>ErrorText v\<close>: \<^verbatim>\<open>fmt.Sprintf("%s", err)\<close> of the value stored under \<^verbatim>\<open>"error"\<close>
  \<^item> \<open>Interrupted\<close>: \<^verbatim>\<open>"Interrupted, aborting..."\<close>
  \<^item> \<open>StepFailedAborting n\<close>: \<^verbatim>\<open>"Step %q failed, aborting..."\<close>
  \<^item> \<open>SkippingCleanup n\<close>: \<^verbatim>\<open>"aborted: skipping cleanup of step %q"\<close>
  \<^item> \<open>IncorrectInput l\<close>: \<^verbatim>\<open>"Incorrect input: %#v"\<close>
\<close>

datatype notice =
    RetryingStep string
  | StepFailed string
  | ErrorText val
  | Interrupted
  | StepFailedAborting string
  | SkippingCleanup string
  | IncorrectInput string

text \<open>
  What reaches the outside, in order: \<^verbatim>\<open>ui.Say\<close>, \<^verbatim>\<open>ui.Error\<close>, the question printed by
  \<^verbatim>\<open>ui.Ask\<close> (its text is a constant of \<^verbatim>\<open>askPrompt\<close>), and the one \<^verbatim>\<open>log.Printf\<close> of
  the file, \<^verbatim>\<open>"Error asking for input: %s"\<close>.
\<close>

datatype event =
    UiSay Ui notice
  | UiError Ui notice
  | UiAsk Ui
  | LogErrorAsking string

text \<open>
  Everything a step can read and write: the state bag (\<^verbatim>\<open>multistep.StateBag\<close> with its
  methods \<^verbatim>\<open>Get\<close>, \<^verbatim>\<open>GetOk\<close> and \<^verbatim>\<open>Put\<close>: a lookup in the map and an update of it), the
  output so far and the step's own private data \<open>priv\<close>. The field \<open>calls\<close> is an observer: it counts the
  invocations of a wrapped step's \<^verbatim>\<open>Run\<close> and is written by \<open>invoke\<close> only, after the
  step has returned, so that no step can change it.
\<close>

record 'p world =
  bag :: StateBag
  out :: "event list"
  calls :: nat
  priv :: 'p

text \<open>
  Modelled from the spec: the interface \<^verbatim>\<open>multistep.Step\<close> (declared in the multistep
  package) with its methods \<^verbatim>\<open>Run\<close> and \<^verbatim>\<open>Cleanup\<close>, as the record of these methods together
  with what \<^verbatim>\<open>typeName\<close> computes from the step's dynamic type. The context argument of
  \<^verbatim>\<open>Run\<close> is only handed through by the decorators and is left out. A step is assumed to
  return, and not to panic.
\<close>

record 'p Step =
  typeName :: string
  Run :: "'p world \<Rightarrow> StepAction \<times> 'p world"
  Cleanup :: "'p world \<Rightarrow> 'p world"

text \<open>
  Modelled from the spec: the keys \<^verbatim>\<open>multistep.StateCancelled\<close> and
  \<^verbatim>\<open>multistep.StateHalted\<close> are constants of the multistep package, which is not part
  of the sources at hand; the spec calls them the cancellation marker and the halted
  marker. They are two keys different from each other and from the quoted keys.
\<close>

definition StateCancelled :: string where
  "StateCancelled = ''cancelled''"

text \<open>
  Modelled from the spec: the halted marker \<^verbatim>\<open>multistep.StateHalted\<close>, as said for the
  cancellation marker above.
\<close>

definition StateHalted :: string where
  "StateHalted = ''halted''"

definition state_Put :: "string \<Rightarrow> val \<Rightarrow> 'p world \<Rightarrow> 'p world" where
  "state_Put k v w = w\<lparr>bag := (bag w)(k \<mapsto> v)\<rparr>"

definition ui_Say :: "Ui \<Rightarrow> notice \<Rightarrow> 'p world \<Rightarrow> 'p world" where
  "ui_Say ui t w = w\<lparr>out := out w @ [UiSay ui t]\<rparr>"

definition ui_Error :: "Ui \<Rightarrow> notice \<Rightarrow> 'p world \<Rightarrow> 'p world" where
  "ui_Error ui t w = w\<lparr>out := out w @ [UiError ui t]\<rparr>"

definition ui_Ask :: "Ui \<Rightarrow> 'p world \<Rightarrow> 'p world" where
  "ui_Ask ui w = w\<lparr>out := out w @ [UiAsk ui]\<rparr>"

definition log_Printf :: "string \<Rightarrow> 'p world \<Rightarrow> 'p world" where
  "log_Printf e w = w\<lparr>out := out w @ [LogErrorAsking e]\<rparr>"

text \<open>One call \<^verbatim>\<open>s.step.Run(ctx, state)\<close>, counted.\<close>

definition invoke :: "'p Step \<Rightarrow> 'p world \<Rightarrow> StepAction \<times> 'p world" where
  "invoke s w = (case Run s w of (action, w') \<Rightarrow> (action, w'\<lparr>calls := Suc (calls w)\<rparr>))"

section \<open>The runner factory\<close>

record PackerConfig =
  PackerOnError :: string
  PackerDebug :: bool

text \<open>An element of the slice \<^verbatim>\<open>steps\<close> after \<^verbatim>\<open>newRunner\<close>: the step as it was, or one of the three wrappers.\<close>

datatype 'p slot =
    plain "'p Step"
  | basicStep "'p Step" Ui
  | abortStep "'p Step" Ui
  | askStep "'p Step" Ui

text \<open>
  Modelled from the spec: the two runners of the multistep package (the sequential
  executor of the spec, with and without the pause hook), as far as \<^verbatim>\<open>newRunner\<close> fills
  in their fields.
\<close>

datatype 'p Runner =
    BasicRunner "'p slot list"
  | DebugRunner "'p slot list" DebugPauseFn

definition newRunner ::
  "'p Step list \<Rightarrow> PackerConfig \<Rightarrow> Ui \<Rightarrow> 'p Runner \<times> DebugPauseFn option" where
  "newRunner steps config ui =
     (let steps' =
            (if PackerOnError config = [] \<or> PackerOnError config = ''cleanup''
               then map (\<lambda>step. basicStep step ui) steps
             else if PackerOnError config = ''abort''
               then map (\<lambda>step. abortStep step ui) steps
             else if PackerOnError config = ''ask''
               then map (\<lambda>step. askStep step ui) steps
             else map plain steps)
      in if PackerDebug config
           then (let pauseFn = MultistepDebugFn ui in (DebugRunner steps' pauseFn, Some pauseFn))
           else (BasicRunner steps', None))"

definition NewRunner :: "'p Step list \<Rightarrow> PackerConfig \<Rightarrow> Ui \<Rightarrow> 'p Runner" where
  "NewRunner steps config ui = fst (newRunner steps config ui)"

definition NewRunnerWithPauseFn ::
  "'p Step list \<Rightarrow> PackerConfig \<Rightarrow> Ui \<Rightarrow> 'p world \<Rightarrow> 'p Runner \<times> 'p world" where
  "NewRunnerWithPauseFn steps config ui state =
     (case newRunner steps config ui of
        (runner, Some pauseFn) \<Rightarrow> (runner, state_Put ''pauseFn'' (VPauseFn pauseFn) state)
      | (runner, None) \<Rightarrow> (runner, state))"

section \<open>The retry loop and the Basic and Abort decorators\<close>

text \<open>A failed type assertion: \<^verbatim>\<open>state.Get("ui").(packer.Ui)\<close> or \<^verbatim>\<open>times.(int)\<close>.\<close>

datatype panic = PanicUi | PanicInt

definition state_ui :: "'p world \<Rightarrow> panic + Ui" where
  "state_ui w = (case bag w ''ui'' of Some (VUi ui) \<Rightarrow> Inr ui | _ \<Rightarrow> Inl PanicUi)"

definition state_maxRetries :: "'p world \<Rightarrow> panic + int" where
  "state_maxRetries w =
     (case bag w ''steps_max_retry'' of
        None \<Rightarrow> Inr 0
      | Some (VInt n) \<Rightarrow> Inr n
      | Some _ \<Rightarrow> Inl PanicInt)"

text \<open>
  The loop \<^verbatim>\<open>for action == ActionRetry && retries < maxRetries\<close>, which the three \<^verbatim>\<open>Run\<close>
  methods share word for word. It leaves by \<^verbatim>\<open>return action\<close> with \<open>ActionContinue\<close>, or
  falls through to the statement that follows it in each of the three, which makes the
  result \<open>ActionHalt\<close>.
\<close>

function retryLoop ::
  "'p Step \<Rightarrow> Ui \<Rightarrow> int \<Rightarrow> StepAction \<Rightarrow> int \<Rightarrow> 'p world \<Rightarrow> StepAction \<times> 'p world" where
  "retryLoop s ui maxRetries action retries w =
     (if action = ActionRetry \<and> retries < maxRetries then
        (case invoke s (ui_Say ui (RetryingStep (typeName s)) w) of
           (action', w') \<Rightarrow>
             if action' = ActionContinue then (action', w')
             else retryLoop s ui maxRetries action' (retries + 1) w')
      else (ActionHalt, w))"
  by pat_completeness auto
termination
  by (relation "measure (\<lambda>(s, ui, maxRetries, action, retries, w). nat (maxRetries - retries))") auto

declare retryLoop.simps [simp del]

definition basicStep_Run :: "'p Step \<Rightarrow> Ui \<Rightarrow> 'p world \<Rightarrow> panic + (StepAction \<times> 'p world)" where
  "basicStep_Run s sui w =
     (case invoke s w of
        (action, w1) \<Rightarrow>
          if action = ActionContinue then Inr (action, w1)
          else (case state_ui w1 of
                  Inl p \<Rightarrow> Inl p
                | Inr ui \<Rightarrow>
                    (case state_maxRetries w1 of
                       Inl p \<Rightarrow> Inl p
                     | Inr maxRetries \<Rightarrow> Inr (retryLoop s ui maxRetries action 0 w1))))"

definition basicStep_Cleanup :: "'p Step \<Rightarrow> Ui \<Rightarrow> 'p world \<Rightarrow> 'p world" where
  "basicStep_Cleanup s sui w = Cleanup s w"

definition abortStep_Run :: "'p Step \<Rightarrow> Ui \<Rightarrow> 'p world \<Rightarrow> panic + (StepAction \<times> 'p world)" where
  "abortStep_Run s sui w =
     (case invoke s w of
        (action, w1) \<Rightarrow>
          if action = ActionContinue then Inr (action, w1)
          else (case state_maxRetries w1 of
                  Inl p \<Rightarrow> Inl p
                | Inr maxRetries \<Rightarrow>
                    (case state_ui w1 of
                       Inl p \<Rightarrow> Inl p
                     | Inr ui \<Rightarrow> Inr (retryLoop s ui maxRetries action 0 w1))))"

section \<open>The cleanup coordinator\<close>

definition handleAbortsAndInterupts :: "'p world \<Rightarrow> Ui \<Rightarrow> string \<Rightarrow> bool \<times> 'p world" where
  "handleAbortsAndInterupts state ui stepName =
     (let alreadyLogged = (bag state ''abort_step_logged'' \<noteq> None);
          w1 = (case bag state ''error'' of
                  Some err \<Rightarrow>
                    if \<not> alreadyLogged
                      then state_Put ''abort_step_logged'' (VBool True) (ui_Error ui (ErrorText err) state)
                      else state
                | None \<Rightarrow> state)
      in if bag w1 StateCancelled \<noteq> None then
           (if \<not> alreadyLogged
              then (False, state_Put ''abort_step_logged'' (VBool True) (ui_Error ui Interrupted w1))
              else (False, ui_Error ui (SkippingCleanup stepName) w1))
         else if bag w1 StateHalted \<noteq> None then
           (if \<not> alreadyLogged
              then (False, state_Put ''abort_step_logged'' (VBool True)
                             (ui_Error ui (StepFailedAborting stepName) w1))
              else (False, ui_Error ui (SkippingCleanup stepName) w1))
         else (True, w1))"

definition abortStep_Cleanup :: "'p Step \<Rightarrow> Ui \<Rightarrow> 'p world \<Rightarrow> 'p world" where
  "abortStep_Cleanup s sui w =
     (case handleAbortsAndInterupts w sui (typeName s) of
        (shouldCleanup, w') \<Rightarrow> if \<not> shouldCleanup then w' else Cleanup s w')"

definition askStep_Cleanup :: "'p Step \<Rightarrow> Ui \<Rightarrow> 'p world \<Rightarrow> 'p world" where
  "askStep_Cleanup s sui w =
     (if bag w ''aborted'' \<noteq> None then
        (case handleAbortsAndInterupts w sui (typeName s) of
           (shouldCleanup, w') \<Rightarrow> if \<not> shouldCleanup then w' else Cleanup s w')
      else Cleanup s w)"

section \<open>The prompt and the Ask decorator\<close>

datatype askResponse = askCleanup | askAbort | askRetry

text \<open>
  \<^verbatim>\<open>strings.ToLower\<close> on the bytes of a line. Only the ASCII letters are mapped here.
  The one use of the result is the comparison of its first byte with \<^verbatim>\<open>'c'\<close>, \<^verbatim>\<open>'a'\<close> and
  \<^verbatim>\<open>'r'\<close>, and no character outside ASCII has one of these three as its lower case, so
  the switch of \<^verbatim>\<open>askPrompt\<close> cannot tell the difference.
\<close>

definition toLowerByte :: "char \<Rightarrow> char" where
  "toLowerByte c =
     (let n = (of_char c :: nat) in if 65 \<le> n \<and> n \<le> 90 then char_of (n + 32) else c)"

definition strings_ToLower :: "string \<Rightarrow> string" where
  "strings_ToLower line = map toLowerByte line"

text \<open>
  The body of the loop of \<^verbatim>\<open>askPrompt\<close> from the point where \<^verbatim>\<open>ui.Ask\<close> has returned
  \<open>(line, err)\<close>: \<open>Some r\<close> is \<^verbatim>\<open>return r\<close>, \<open>None\<close> is the next round of the loop. The
  string \<^verbatim>\<open>input\<close> ends in \<^verbatim>\<open>"c"\<close>, so \<^verbatim>\<open>input[0]\<close> exists and the last case cannot occur.
\<close>

definition askPrompt_body ::
  "Ui \<Rightarrow> string \<Rightarrow> string option \<Rightarrow> 'p world \<Rightarrow> askResponse option \<times> 'p world" where
  "askPrompt_body ui line err w =
     (let w1 = (case err of Some e \<Rightarrow> log_Printf e w | None \<Rightarrow> w);
          input = strings_ToLower line @ ''c''
      in case input of
           c # _ \<Rightarrow>
             if c = CHR ''c'' then (Some askCleanup, w1)
             else if c = CHR ''a'' then (Some askAbort, w1)
             else if c = CHR ''r'' then (Some askRetry, w1)
             else (None, ui_Say ui (IncorrectInput line) w1)
         | [] \<Rightarrow> (None, w1))"

text \<open>
  \<^verbatim>\<open>askPrompt\<close> on its own, reading what \<^verbatim>\<open>ui.Ask\<close> will return from a list. When the list
  is used up the read blocks and the function does not return: \<open>None\<close>.
\<close>

fun askPrompt ::
  "Ui \<Rightarrow> (string \<times> string option) list \<Rightarrow> 'p world \<Rightarrow>
   (askResponse \<times> (string \<times> string option) list \<times> 'p world) option" where
  "askPrompt ui [] w = None"
| "askPrompt ui ((line, err) # rest) w =
     (case askPrompt_body ui line err (ui_Ask ui w) of
        (Some r, w') \<Rightarrow> Some (r, rest, w')
      | (None, w') \<Rightarrow> askPrompt ui rest w')"

text \<open>
  \<^verbatim>\<open>ask\<close> starts \<^verbatim>\<open>askPrompt\<close> in a goroutine and waits in a \<^verbatim>\<open>select\<close> for its result or
  for a timer of 100 ms, after which it looks at the cancellation key. What the two
  of them get to see, in the order in which they act on it:
  \<^item> \<open>TimerFires\<close>: the \<^verbatim>\<open>select\<close> takes the case \<^verbatim>\<open><-time.After(100 * time.Millisecond)\<close>;
  \<^item> \<open>Cancel\<close>: somebody else (the runner, on an interrupt) puts the cancellation key
    into the bag;
  \<^item> \<open>Answer line err\<close>: \<^verbatim>\<open>ui.Ask\<close> returns \<open>(line, err)\<close> to the goroutine; if the line is
    an answer, the \<^verbatim>\<open>select\<close> takes the case \<^verbatim>\<open>response := <-result\<close> next.
  A list that is used up before \<^verbatim>\<open>ask\<close> returns leaves it waiting: \<open>None\<close>.
\<close>

datatype occurrence = TimerFires | Cancel | Answer string "string option"

fun ask_select ::
  "Ui \<Rightarrow> occurrence list \<Rightarrow> 'p world \<Rightarrow> (askResponse \<times> occurrence list \<times> 'p world) option" where
  "ask_select ui [] w = None"
| "ask_select ui (TimerFires # es) w =
     (if bag w StateCancelled \<noteq> None then Some (askCleanup, es, w) else ask_select ui es w)"
| "ask_select ui (Cancel # es) w = ask_select ui es (state_Put StateCancelled (VBool True) w)"
| "ask_select ui (Answer line err # es) w =
     (case askPrompt_body ui line err w of
        (Some response, w') \<Rightarrow> Some (response, es, w')
      | (None, w') \<Rightarrow> ask_select ui es (ui_Ask ui w'))"

definition ask ::
  "Ui \<Rightarrow> string \<Rightarrow> occurrence list \<Rightarrow> 'p world \<Rightarrow>
   (askResponse \<times> occurrence list \<times> 'p world) option" where
  "ask ui name es state = ask_select ui es (ui_Ask ui (ui_Say ui (StepFailed name) state))"

text \<open>
  The lines \<^verbatim>\<open>err, ok := state.GetOk("error"); if ok { s.ui.Error(fmt.Sprintf("%s", err)) }\<close>
  of \<^verbatim>\<open>askStep.Run\<close>.
\<close>

definition show_error :: "Ui \<Rightarrow> 'p world \<Rightarrow> 'p world" where
  "show_error sui w =
     (case bag w ''error'' of Some err \<Rightarrow> ui_Error sui (ErrorText err) w | None \<Rightarrow> w)"

text \<open>
  \<^verbatim>\<open>askStep.Run\<close>. The outer \<^verbatim>\<open>for\<close> goes round once more for every \<^verbatim>\<open>askRetry\<close>; each
  \<^verbatim>\<open>ask\<close> that returns has used up at least one occurrence, which is why the function
  below is total. The result is \<open>None\<close> where the method is still waiting for its
  operator when the occurrences end.
\<close>

function askStep_Run ::
  "'p Step \<Rightarrow> Ui \<Rightarrow> occurrence list \<Rightarrow> 'p world \<Rightarrow>
   (panic + (StepAction \<times> occurrence list \<times> 'p world)) option" where
  "askStep_Run s sui es w =
     (case invoke s w of
        (action, w1) \<Rightarrow>
          if action = ActionContinue then Some (Inr (action, es, w1))
          else (case state_ui w1 of
                  Inl p \<Rightarrow> Some (Inl p)
                | Inr ui \<Rightarrow>
                    (case state_maxRetries w1 of
                       Inl p \<Rightarrow> Some (Inl p)
                     | Inr maxRetries \<Rightarrow>
                         (case retryLoop s ui maxRetries action 0 w1 of
                            (action2, w2) \<Rightarrow>
                              if action2 = ActionContinue then Some (Inr (action2, es, w2))
                              else (case ask sui (typeName s) es (show_error sui w2) of
                                      None \<Rightarrow> None
                                    | Some (askCleanup, es', w3) \<Rightarrow> Some (Inr (ActionHalt, es', w3))
                                    | Some (askAbort, es', w3) \<Rightarrow>
                                        Some (Inr (ActionHalt, es', state_Put ''aborted'' (VBool True) w3))
                                    | Some (askRetry, es', w3) \<Rightarrow> askStep_Run s sui es' w3)))))"
  by pat_completeness auto
termination
proof (relation "measure (\<lambda>(s, sui, es, w). length es)")
  show "wf (measure (\<lambda>(s :: 'p Step, sui :: Ui, es :: occurrence list, w :: 'p world). length es))"
    by simp
next
  fix s :: "'p Step" and sui :: Ui and es es' :: "occurrence list" and w w2 w3 :: "'p world"
    and x2a :: "askResponse \<times> occurrence list \<times> 'p world" and y :: "occurrence list \<times> 'p world"
    and r :: askResponse
  assume a: "ask sui (typeName s) es (show_error sui w2) = Some x2a"
    and b: "(r, y) = x2a" and c: "(es', w3) = y"
  have shorter: "ask_select ui xs v = Some (q, xs', v') \<Longrightarrow> length xs' < length xs"
    for ui and xs xs' :: "occurrence list" and v v' :: "'p world" and q
    by (induction ui xs v rule: ask_select.induct) (auto split: if_splits prod.splits option.splits)
  from a b c have "length es' < length es"
    unfolding ask_def using shorter by metis
  then show "((s, sui, es', w3), (s, sui, es, w)) \<in> measure (\<lambda>(s, sui, es, w). length es)"
    by simp
qed

declare askStep_Run.simps [simp del]

section \<open>Notions used to state the properties\<close>

text \<open>
  The context after \<open>k\<close> rounds of the retry loop that did not leave it: each round is
  the notice \<^verbatim>\<open>ui.Say("Retrying step: ...")\<close> followed by one call of the step's \<^verbatim>\<open>Run\<close>.
\<close>

primrec retried :: "'p Step \<Rightarrow> Ui \<Rightarrow> nat \<Rightarrow> 'p world \<Rightarrow> 'p world" where
  "retried s ui 0 w = w"
| "retried s ui (Suc k) w =
     retried s ui k (snd (invoke s (ui_Say ui (RetryingStep (typeName s)) w)))"

text \<open>The action that retry number \<open>k + 1\<close> returns, after \<open>k\<close> retries that did not leave the loop.\<close>

definition retry_action :: "'p Step \<Rightarrow> Ui \<Rightarrow> nat \<Rightarrow> 'p world \<Rightarrow> StepAction" where
  "retry_action s ui k w =
     fst (invoke s (ui_Say ui (RetryingStep (typeName s)) (retried s ui k w)))"

text \<open>
  The retry loop as the specification words it: the budget is looked up in the run
  context at each decision. A step can raise the budget on every attempt, so this loop
  need not end; \<open>fuel\<close> bounds the number of decisions and \<open>None\<close> is a loop that has
  not returned within them.
\<close>

fun retryLoop_fresh ::
  "nat \<Rightarrow> 'p Step \<Rightarrow> Ui \<Rightarrow> StepAction \<Rightarrow> int \<Rightarrow> 'p world \<Rightarrow>
   (panic + (StepAction \<times> 'p world)) option" where
  "retryLoop_fresh 0 s ui action retries w = None"
| "retryLoop_fresh (Suc fuel) s ui action retries w =
     (case state_maxRetries w of
        Inl p \<Rightarrow> Some (Inl p)
      | Inr maxRetries \<Rightarrow>
          if action = ActionRetry \<and> retries < maxRetries then
            (case invoke s (ui_Say ui (RetryingStep (typeName s)) w) of
               (action', w') \<Rightarrow>
                 if action' = ActionContinue then Some (Inr (action', w'))
                 else retryLoop_fresh fuel s ui action' (retries + 1) w')
          else Some (Inr (ActionHalt, w)))"

text \<open>
  A sequence of calls of the cleanup coordinator within one run. Between two calls
  anything else that happens to the state bag (a step's own cleanup, the runner
  recording a halt, an interrupt) is a function \<open>g\<close> on the bag.
\<close>

fun coordinate :: "((StateBag \<Rightarrow> StateBag) \<times> Ui \<times> string) list \<Rightarrow> 'p world \<Rightarrow> 'p world" where
  "coordinate [] w = w"
| "coordinate ((g, ui, stepName) # cs) w =
     coordinate cs (snd (handleAbortsAndInterupts (w\<lparr>bag := g (bag w)\<rparr>) ui stepName))"

text \<open>What happens between two calls does not take the key \<^verbatim>\<open>"abort_step_logged"\<close> out of the bag.\<close>

definition keeps_flag :: "(StateBag \<Rightarrow> StateBag) \<Rightarrow> bool" where
  "keeps_flag g = (\<forall>b. b ''abort_step_logged'' \<noteq> None \<longrightarrow> g b ''abort_step_logged'' \<noteq> None)"

definition is_error_notice :: "event \<Rightarrow> bool" where
  "is_error_notice e = (case e of UiError ui (ErrorText v) \<Rightarrow> True | _ \<Rightarrow> False)"

definition is_aborting_notice :: "event \<Rightarrow> bool" where
  "is_aborting_notice e =
     (case e of
        UiError ui Interrupted \<Rightarrow> True
      | UiError ui (StepFailedAborting n) \<Rightarrow> True
      | _ \<Rightarrow> False)"

text \<open>
  The context in which \<^verbatim>\<open>ask\<close> is still in its \<^verbatim>\<open>select\<close> loop after the given occurrences,
  with no response received and no poll that saw the cancellation key; \<open>None\<close> when
  \<^verbatim>\<open>ask\<close> has returned by then. It follows \<open>ask_select\<close> case by case.
\<close>

fun ask_waiting :: "Ui \<Rightarrow> occurrence list \<Rightarrow> 'p world \<Rightarrow> 'p world option" where
  "ask_waiting ui [] w = Some w"
| "ask_waiting ui (TimerFires # es) w =
     (if bag w StateCancelled \<noteq> None then None else ask_waiting ui es w)"
| "ask_waiting ui (Cancel # es) w = ask_waiting ui es (state_Put StateCancelled (VBool True) w)"
| "ask_waiting ui (Answer line err # es) w =
     (case askPrompt_body ui line err w of
        (Some response, w') \<Rightarrow> None
      | (None, w') \<Rightarrow> ask_waiting ui es (ui_Ask ui w'))"

section \<open>Example steps and contexts\<close>

text \<open>A step that asks for a retry every time and touches nothing.\<close>

definition stubborn :: "unit Step" where
  "stubborn = \<lparr>typeName = ''StepStubborn'', Run = (\<lambda>w. (ActionRetry, w)), Cleanup = (\<lambda>w. w)\<rparr>"

text \<open>A step that asks for a retry as long as its private counter is positive, counting down.\<close>

definition flaky :: "nat Step" where
  "flaky = \<lparr>typeName = ''StepFlaky'',
            Run = (\<lambda>w. (if priv w = 0 then ActionContinue else ActionRetry, w\<lparr>priv := priv w - 1\<rparr>)),
            Cleanup = (\<lambda>w. w)\<rparr>"

text \<open>
  A step that asks for a retry every time and rewrites the retry budget: 2 on its first
  call, 0 on every later one.
\<close>

definition meddler :: "nat Step" where
  "meddler = \<lparr>typeName = ''StepMeddler'',
              Run = (\<lambda>w. (ActionRetry,
                           w\<lparr>bag := (bag w)(''steps_max_retry'' \<mapsto> VInt (if priv w = 0 then 2 else 0)),
                             priv := Suc (priv w)\<rparr>)),
              Cleanup = (\<lambda>w. w)\<rparr>"

text \<open>A step that fails at once and records its error, as a step that cannot go on does.\<close>

definition failing :: "unit Step" where
  "failing = \<lparr>typeName = ''StepFailing'',
              Run = (\<lambda>w. (ActionHalt, state_Put ''error'' (VErr ''disk full'') w)),
              Cleanup = (\<lambda>w. w)\<rparr>"

text \<open>A fresh run context: the user interface 0 under \<^verbatim>\<open>"ui"\<close>, nothing else.\<close>

definition fresh :: "'p \<Rightarrow> 'p world" where
  "fresh p = \<lparr>bag = [''ui'' \<mapsto> VUi 0], out = [], calls = 0, priv = p\<rparr>"

section \<open>Properties of the retry loop\<close>

lemma calls_invoke: "calls (snd (invoke s w)) = Suc (calls w)"
  by (simp add: invoke_def split: prod.split)

lemma calls_ui_Say: "calls (ui_Say ui t w) = calls w"
  by (simp add: ui_Say_def)

lemma calls_retried: "calls (retried s ui k w) = calls w + k"
  by (induction k arbitrary: w) (simp_all add: calls_invoke calls_ui_Say)

lemma retried_Suc_end:
  "retried s ui (Suc k) w = snd (invoke s (ui_Say ui (RetryingStep (typeName s)) (retried s ui k w)))"
  by (induction k arbitrary: w) simp_all

lemma retryLoop_stop:
  "\<not> (action = ActionRetry \<and> retries < maxRetries) \<Longrightarrow>
   retryLoop s ui maxRetries action retries w = (ActionHalt, w)"
  by (subst retryLoop.simps) auto

lemma retryLoop_retries:
  "(\<forall>j<k. retry_action s ui j w = ActionRetry) \<Longrightarrow> retries + int k \<le> maxRetries \<Longrightarrow>
   retryLoop s ui maxRetries ActionRetry retries w =
   retryLoop s ui maxRetries ActionRetry (retries + int k) (retried s ui k w)"
proof (induction k arbitrary: w retries)
  case 0
  then show ?case by simp
next
  case (Suc k)
  let ?w' = "snd (invoke s (ui_Say ui (RetryingStep (typeName s)) w))"
  from Suc.prems(1) have first: "fst (invoke s (ui_Say ui (RetryingStep (typeName s)) w)) = ActionRetry"
    by (auto simp: retry_action_def)
  have rest: "\<forall>j<k. retry_action s ui j ?w' = ActionRetry"
  proof (intro allI impI)
    fix j assume "j < k"
    then have "retry_action s ui (Suc j) w = ActionRetry" using Suc.prems(1) by auto
    then show "retry_action s ui j ?w' = ActionRetry" by (simp add: retry_action_def)
  qed
  have "retryLoop s ui maxRetries ActionRetry retries w =
        retryLoop s ui maxRetries ActionRetry (retries + 1) ?w'"
    using first Suc.prems(2) by (subst retryLoop.simps) (simp add: case_prod_beta)
  also have "\<dots> = retryLoop s ui maxRetries ActionRetry (retries + 1 + int k) (retried s ui k ?w')"
    using Suc.IH [OF rest, of "retries + 1"] Suc.prems(2) by simp
  finally show ?case by (simp add: ac_simps)
qed

lemma retryLoop_exhausted:
  assumes "\<forall>j<nat N. retry_action s ui j w = ActionRetry" and "0 \<le> N"
  shows "retryLoop s ui N ActionRetry 0 w = (ActionHalt, retried s ui (nat N) w)"
proof -
  have "retryLoop s ui N ActionRetry 0 w = retryLoop s ui N ActionRetry (0 + int (nat N)) (retried s ui (nat N) w)"
    using assms by (intro retryLoop_retries) simp_all
  also have "\<dots> = (ActionHalt, retried s ui (nat N) w)"
    using assms(2) by (simp add: retryLoop_stop)
  finally show ?thesis .
qed

lemma retryLoop_succeeds:
  assumes "\<forall>j<k. retry_action s ui j w = ActionRetry"
    and "retry_action s ui k w = ActionContinue" and "int k < N"
  shows "retryLoop s ui N ActionRetry 0 w = (ActionContinue, retried s ui (Suc k) w)"
proof -
  have "retryLoop s ui N ActionRetry 0 w = retryLoop s ui N ActionRetry (0 + int k) (retried s ui k w)"
    using assms by (intro retryLoop_retries) simp_all
  also have "\<dots> = (ActionContinue, retried s ui (Suc k) w)"
    using assms(2,3) unfolding retried_Suc_end
    by (subst retryLoop.simps) (simp add: retry_action_def case_prod_beta)
  finally show ?thesis .
qed

lemma fst_invoke: "fst (invoke s w) = fst (Run s w)"
  by (simp add: invoke_def case_prod_beta)

lemma char_eq_code: "x = c \<longleftrightarrow> (of_char x :: nat) = of_char c"
  by simp

lemma toLowerByte_c: "toLowerByte x = CHR ''c'' \<longleftrightarrow> x = CHR ''c'' \<or> x = CHR ''C''"
proof -
  have small: "(of_char x :: nat) < 256" by simp
  show ?thesis
    unfolding toLowerByte_def Let_def
    apply (simp only: char_eq_code [of x] char_eq_code [of "char_of _"] split: if_split)
    apply (simp add: take_bit_eq_mod)
    using small apply presburger
    done
qed

lemma toLowerByte_a: "toLowerByte x = CHR ''a'' \<longleftrightarrow> x = CHR ''a'' \<or> x = CHR ''A''"
proof -
  have small: "(of_char x :: nat) < 256" by simp
  show ?thesis
    unfolding toLowerByte_def Let_def
    apply (simp only: char_eq_code [of x] char_eq_code [of "char_of _"] split: if_split)
    apply (simp add: take_bit_eq_mod)
    using small apply presburger
    done
qed

lemma toLowerByte_r: "toLowerByte x = CHR ''r'' \<longleftrightarrow> x = CHR ''r'' \<or> x = CHR ''R''"
proof -
  have small: "(of_char x :: nat) < 256" by simp
  show ?thesis
    unfolding toLowerByte_def Let_def
    apply (simp only: char_eq_code [of x] char_eq_code [of "char_of _"] split: if_split)
    apply (simp add: take_bit_eq_mod)
    using small apply presburger
    done
qed

lemma askPrompt_body_parse:
  "askPrompt_body ui line err w =
     (let w1 = (case err of Some e \<Rightarrow> log_Printf e w | None \<Rightarrow> w) in
      case line of
        [] \<Rightarrow> (Some askCleanup, w1)
      | x # _ \<Rightarrow>
          if x = CHR ''c'' \<or> x = CHR ''C'' then (Some askCleanup, w1)
          else if x = CHR ''a'' \<or> x = CHR ''A'' then (Some askAbort, w1)
          else if x = CHR ''r'' \<or> x = CHR ''R'' then (Some askRetry, w1)
          else (None, ui_Say ui (IncorrectInput line) w1))"
  by (cases line)
     (simp_all add: askPrompt_body_def Let_def strings_ToLower_def
        toLowerByte_c toLowerByte_a toLowerByte_r)

section \<open>The runner factory and unknown policies\<close>

text \<open>
  C1. The claim: for every list of steps and every policy string other than \<^verbatim>\<open>""\<close>,
  \<^verbatim>\<open>"cleanup"\<close>, \<^verbatim>\<open>"abort"\<close> and \<^verbatim>\<open>"ask"\<close>, the factory behaves as in the case \<^verbatim>\<open>""\<close> and
  wraps every step in the Basic decorator, without a crash. The \<^verbatim>\<open>switch\<close> of \<^verbatim>\<open>newRunner\<close>
  has no default case: for such a string no crash occurs (the function has no failing
  branch at all), the runner is chosen by the debug flag as always, but every step stays
  as it was handed in, with no decorator around it.
\<close>

theorem newRunner_unrecognized:
  assumes "PackerOnError config \<notin> {'''', ''cleanup'', ''abort'', ''ask''}"
  shows "newRunner steps config ui =
           (if PackerDebug config
              then (DebugRunner (map plain steps) (MultistepDebugFn ui), Some (MultistepDebugFn ui))
              else (BasicRunner (map plain steps), None)) \<and>
         NewRunner steps config ui =
           (if PackerDebug config then DebugRunner (map plain steps) (MultistepDebugFn ui)
            else BasicRunner (map plain steps))"
  using assms by (simp add: newRunner_def NewRunner_def Let_def)

theorem newRunner_unrecognized_witness:
  "newRunner [stubborn] \<lparr>PackerOnError = ''retry'', PackerDebug = True\<rparr> 7 =
     (DebugRunner [plain stubborn] (MultistepDebugFn 7), Some (MultistepDebugFn 7)) \<and>
   NewRunner [stubborn] \<lparr>PackerOnError = ''retry'', PackerDebug = True\<rparr> 7 =
     DebugRunner [plain stubborn] (MultistepDebugFn 7)"
  using newRunner_unrecognized [of "\<lparr>PackerOnError = ''retry'', PackerDebug = True\<rparr>" "[stubborn]" 7]
  by simp

theorem newRunner_unrecognized_not_basic:
  "newRunner [stubborn] \<lparr>PackerOnError = ''retry'', PackerDebug = False\<rparr> 7 =
     (BasicRunner [plain stubborn], None) \<and>
   newRunner [stubborn] \<lparr>PackerOnError = '''', PackerDebug = False\<rparr> 7 =
     (BasicRunner [basicStep stubborn 7], None) \<and>
   newRunner [stubborn] \<lparr>PackerOnError = ''retry'', PackerDebug = False\<rparr> 7 \<noteq>
   newRunner [stubborn] \<lparr>PackerOnError = '''', PackerDebug = False\<rparr> 7"
  by (simp add: newRunner_def)

lemma always_retry_action:
  "\<forall>v. fst (Run s v) = ActionRetry \<Longrightarrow> retry_action s ui j w = ActionRetry"
  by (simp add: retry_action_def fst_invoke)

lemma calls_show_error: "calls (show_error sui w) = calls w"
  by (simp add: show_error_def ui_Error_def split: option.split)

lemma calls_askPrompt_body: "calls (snd (askPrompt_body ui line err w)) = calls w"
  by (simp add: askPrompt_body_def Let_def log_Printf_def ui_Say_def split: option.split list.split)

lemma calls_ask_select:
  "ask_select ui es w = Some (r, es', w') \<Longrightarrow> calls w' = calls w"
proof (induction ui es w rule: ask_select.induct)
  case (4 ui line err es w)
  then show ?case
    using calls_askPrompt_body [of ui line err w]
    by (auto simp: ui_Ask_def split: prod.splits option.splits)
qed (auto simp: state_Put_def split: if_splits)

lemma calls_ask: "ask ui name es w = Some (r, es', w') \<Longrightarrow> calls w' = calls w"
  unfolding ask_def by (drule calls_ask_select) (simp add: ui_Ask_def ui_Say_def)

lemma askStep_Run_pass:
  "askStep_Run s sui es w =
     (case basicStep_Run s sui w of
        Inl p \<Rightarrow> Some (Inl p)
      | Inr (action, w2) \<Rightarrow>
          if action = ActionContinue then Some (Inr (action, es, w2))
          else (case ask sui (typeName s) es (show_error sui w2) of
                  None \<Rightarrow> None
                | Some (r, es', w3) \<Rightarrow>
                    if r = askRetry then askStep_Run s sui es' w3
                    else Some (Inr (ActionHalt, es',
                                    if r = askAbort then state_Put ''aborted'' (VBool True) w3 else w3))))"
  apply (subst askStep_Run.simps)
  apply (simp add: basicStep_Run_def split: prod.split sum.split option.split askResponse.split)
  done

lemma length_ask_select:
  "ask_select ui es w = Some (r, es', w') \<Longrightarrow> length es' < length es"
  by (induction ui es w rule: ask_select.induct) (auto split: if_splits prod.splits option.splits)

lemma length_ask: "ask ui name es w = Some (r, es', w') \<Longrightarrow> length es' < length es"
  unfolding ask_def by (rule length_ask_select)

lemma bag_askPrompt_body: "bag (snd (askPrompt_body ui line err w)) = bag w"
  by (simp add: askPrompt_body_def Let_def log_Printf_def ui_Say_def split: option.split list.split)

lemma bag_ask_select:
  "ask_select ui es w = Some (r, es', w') \<Longrightarrow> k \<noteq> StateCancelled \<Longrightarrow> bag w' k = bag w k"
proof (induction ui es w rule: ask_select.induct)
  case (4 ui line err es w)
  then show ?case
    using bag_askPrompt_body [of ui line err w]
    by (auto simp: ui_Ask_def split: prod.splits option.splits)
qed (auto simp: state_Put_def split: if_splits)

lemma bag_ask:
  "ask ui name es w = Some (r, es', w') \<Longrightarrow> k \<noteq> StateCancelled \<Longrightarrow> bag w' k = bag w k"
  unfolding ask_def by (drule bag_ask_select [where k = k]) (simp_all add: ui_Ask_def ui_Say_def)

lemma bag_show_error: "bag (show_error sui w) = bag w"
  by (simp add: show_error_def ui_Error_def split: option.split)

lemma bag_invoke_keep:
  "\<forall>v. bag (snd (Run s v)) k = bag v k \<Longrightarrow> bag (snd (invoke s w)) k = bag w k"
  by (simp add: invoke_def case_prod_beta)

lemma bag_retried_keep:
  "\<forall>v. bag (snd (Run s v)) k = bag v k \<Longrightarrow> bag (retried s ui n w) k = bag w k"
  by (induction n arbitrary: w) (simp_all add: bag_invoke_keep ui_Say_def)

lemma basic_exhausted:
  assumes always: "\<forall>v. fst (Run s v) = ActionRetry"
    and ui: "state_ui (snd (invoke s w)) = Inr ui"
    and budget: "state_maxRetries (snd (invoke s w)) = Inr N"
    and nonneg: "0 \<le> N"
  shows "basicStep_Run s sui w = Inr (ActionHalt, retried s ui (nat N) (snd (invoke s w)))"
proof -
  have first: "fst (invoke s w) = ActionRetry"
    using always by (simp add: fst_invoke)
  have loop: "retryLoop s ui N ActionRetry 0 (snd (invoke s w)) =
              (ActionHalt, retried s ui (nat N) (snd (invoke s w)))"
    using always nonneg by (intro retryLoop_exhausted) (simp_all add: always_retry_action)
  show ?thesis
    using first ui budget loop by (simp add: basicStep_Run_def case_prod_beta)
qed

lemma ask_rounds:
  assumes always: "\<forall>v. fst (Run s v) = ActionRetry"
    and keep_ui: "\<forall>v. bag (snd (Run s v)) ''ui'' = bag v ''ui''"
    and keep_budget: "\<forall>v. bag (snd (Run s v)) ''steps_max_retry'' = bag v ''steps_max_retry''"
    and nonneg: "0 \<le> N"
  shows "bag w ''ui'' = Some (VUi ui) \<Longrightarrow> state_maxRetries w = Inr N \<Longrightarrow>
         askStep_Run s sui es w = Some (Inr (a, es', w')) \<Longrightarrow>
         a = ActionHalt \<and> (\<exists>r. calls w' = calls w + (r + 1) * (nat N + 1))"
proof (induction es arbitrary: w rule: length_induct)
  case (1 es)
  let ?w1 = "snd (invoke s w)"
  let ?wN = "retried s ui (nat N) ?w1"
  have ui1: "state_ui ?w1 = Inr ui"
    using "1.prems"(1) bag_invoke_keep [OF keep_ui, of w] by (simp add: state_ui_def)
  have budget1: "state_maxRetries ?w1 = Inr N"
    using "1.prems"(2) bag_invoke_keep [OF keep_budget, of w] by (simp add: state_maxRetries_def)
  have basic: "basicStep_Run s sui w = Inr (ActionHalt, ?wN)"
    using always ui1 budget1 nonneg by (rule basic_exhausted)
  have count: "calls ?wN = calls w + nat N + 1"
    by (simp add: calls_retried calls_invoke)
  have bagN: "bag ?wN ''ui'' = bag w ''ui''" "bag ?wN ''steps_max_retry'' = bag w ''steps_max_retry''"
    using bag_retried_keep [OF keep_ui, of ui "nat N" ?w1] bag_invoke_keep [OF keep_ui, of w]
      bag_retried_keep [OF keep_budget, of ui "nat N" ?w1] bag_invoke_keep [OF keep_budget, of w]
    by simp_all
  from "1.prems"(3) basic
  obtain r es1 w3 where asked: "ask sui (typeName s) es (show_error sui ?wN) = Some (r, es1, w3)"
    and result: "(if r = askRetry then askStep_Run s sui es1 w3
                  else Some (Inr (ActionHalt, es1,
                         if r = askAbort then state_Put ''aborted'' (VBool True) w3 else w3)))
                 = Some (Inr (a, es', w'))"
    by (subst (asm) askStep_Run_pass) (auto split: option.splits)
  have calls3: "calls w3 = calls w + nat N + 1"
    using calls_ask [OF asked] count by (simp add: calls_show_error)
  show ?case
  proof (cases "r = askRetry")
    case False
    with result have "a = ActionHalt" and "calls w' = calls w3"
      by (auto simp: state_Put_def split: if_splits)
    with calls3 have "a = ActionHalt \<and> calls w' = calls w + (0 + 1) * (nat N + 1)" by simp
    then show ?thesis by blast
  next
    case True
    with result have again: "askStep_Run s sui es1 w3 = Some (Inr (a, es', w'))" by simp
    have shorter: "length es1 < length es" using asked by (rule length_ask)
    have ui3: "bag w3 ''ui'' = Some (VUi ui)"
      using bag_ask [OF asked, of "''ui''"] bagN "1.prems"(1)
      by (simp add: bag_show_error StateCancelled_def)
    have "bag w3 ''steps_max_retry'' = bag w ''steps_max_retry''"
      using bag_ask [OF asked, of "''steps_max_retry''"] bagN
      by (simp add: bag_show_error StateCancelled_def)
    then have budget3: "state_maxRetries w3 = Inr N"
      using "1.prems"(2) by (simp add: state_maxRetries_def)
    from "1.IH" shorter ui3 budget3 again
    obtain r' where "a = ActionHalt" and "calls w' = calls w3 + (r' + 1) * (nat N + 1)"
      by blast
    with calls3 have "a = ActionHalt \<and> calls w' = calls w + (Suc r' + 1) * (nat N + 1)" by simp
    then show ?thesis by blast
  qed
qed

section \<open>The retry bound\<close>

text \<open>
  C2. The claim: for every budget \<open>N \<ge> 0\<close> under \<^verbatim>\<open>steps_max_retry\<close> (0 when the key is
  absent) and every step whose \<^verbatim>\<open>Run\<close> always returns Retry, the decorated \<^verbatim>\<open>Run\<close> of each
  of the three variants calls the step exactly \<open>N + 1\<close> times and returns Halt.
  The budget and the user interface are looked up when the first attempt has returned,
  so the hypotheses speak of the context at that point. For Basic and Abort the claim
  holds as it stands: the result is Halt after the first attempt and \<open>N\<close> retries. The
  Ask variant makes the same \<open>N + 1\<close> calls and then puts the question to the operator;
  it returns Halt with these \<open>N + 1\<close> calls when the answer is clean up or abort, and
  when the answer is retry it runs again from its first line, in the context that the
  prompt has left, looking up the user interface and the budget anew. For a step that
  leaves both keys as they are, every Ask \<^verbatim>\<open>Run\<close> that returns has returned Halt after a
  positive multiple of \<open>N + 1\<close> calls.
\<close>

theorem retry_bound:
  assumes always: "\<forall>v. fst (Run s v) = ActionRetry"
    and ui: "state_ui (snd (invoke s w)) = Inr ui"
    and budget: "state_maxRetries (snd (invoke s w)) = Inr N"
    and nonneg: "0 \<le> N"
  shows "basicStep_Run s sui w = Inr (ActionHalt, retried s ui (nat N) (snd (invoke s w))) \<and>
         abortStep_Run s sui w = Inr (ActionHalt, retried s ui (nat N) (snd (invoke s w))) \<and>
         calls (retried s ui (nat N) (snd (invoke s w))) = calls w + nat N + 1 \<and>
         askStep_Run s sui es w =
           (case ask sui (typeName s) es (show_error sui (retried s ui (nat N) (snd (invoke s w)))) of
              None \<Rightarrow> None
            | Some (r, es', w3) \<Rightarrow>
                if r = askRetry then askStep_Run s sui es' w3
                else Some (Inr (ActionHalt, es',
                                if r = askAbort then state_Put ''aborted'' (VBool True) w3 else w3))) \<and>
         (case ask sui (typeName s) es (show_error sui (retried s ui (nat N) (snd (invoke s w)))) of
            None \<Rightarrow> True
          | Some (r, es', w3) \<Rightarrow> calls w3 = calls w + nat N + 1) \<and>
         ((\<forall>v. bag (snd (Run s v)) ''ui'' = bag v ''ui'') \<and>
          (\<forall>v. bag (snd (Run s v)) ''steps_max_retry'' = bag v ''steps_max_retry'') \<longrightarrow>
          (\<forall>a es' w'. askStep_Run s sui es w = Some (Inr (a, es', w')) \<longrightarrow>
             a = ActionHalt \<and> (\<exists>r. calls w' = calls w + (r + 1) * (nat N + 1))))"
proof -
  let ?w1 = "snd (invoke s w)"
  let ?wN = "retried s ui (nat N) ?w1"
  have first: "fst (invoke s w) = ActionRetry"
    using always by (simp add: fst_invoke)
  have loop: "retryLoop s ui N ActionRetry 0 ?w1 = (ActionHalt, ?wN)"
    using always nonneg by (intro retryLoop_exhausted) (simp_all add: always_retry_action)
  have basic: "basicStep_Run s sui w = Inr (ActionHalt, ?wN)"
    using always ui budget nonneg by (rule basic_exhausted)
  have abort: "abortStep_Run s sui w = Inr (ActionHalt, ?wN)"
    using first ui budget loop by (simp add: abortStep_Run_def case_prod_beta)
  have count: "calls ?wN = calls w + nat N + 1"
    by (simp add: calls_retried calls_invoke)
  have asked: "askStep_Run s sui es w =
           (case ask sui (typeName s) es (show_error sui ?wN) of
              None \<Rightarrow> None
            | Some (r, es', w3) \<Rightarrow>
                if r = askRetry then askStep_Run s sui es' w3
                else Some (Inr (ActionHalt, es',
                                if r = askAbort then state_Put ''aborted'' (VBool True) w3 else w3)))"
    by (subst askStep_Run_pass) (simp add: basic)
  have after: "(case ask sui (typeName s) es (show_error sui ?wN) of
            None \<Rightarrow> True
          | Some (r, es', w3) \<Rightarrow> calls w3 = calls w + nat N + 1)"
    using count by (auto split: option.split dest!: calls_ask simp: calls_show_error)
  have rounds: "a = ActionHalt \<and> (\<exists>r. calls w' = calls w + (r + 1) * (nat N + 1))"
    if keep_ui: "\<forall>v. bag (snd (Run s v)) ''ui'' = bag v ''ui''"
      and keep_budget: "\<forall>v. bag (snd (Run s v)) ''steps_max_retry'' = bag v ''steps_max_retry''"
      and returned: "askStep_Run s sui es w = Some (Inr (a, es', w'))"
    for a es' w'
  proof -
    have "bag w ''ui'' = bag ?w1 ''ui''"
      using bag_invoke_keep [OF keep_ui, of w] by simp
    moreover have "bag ?w1 ''ui'' = Some (VUi ui)"
      using ui by (auto simp: state_ui_def split: option.splits val.splits)
    ultimately have ui0: "bag w ''ui'' = Some (VUi ui)" by simp
    have "bag w ''steps_max_retry'' = bag ?w1 ''steps_max_retry''"
      using bag_invoke_keep [OF keep_budget, of w] by simp
    then have budget0: "state_maxRetries w = Inr N"
      using budget by (simp add: state_maxRetries_def)
    from ask_rounds [OF always keep_ui keep_budget nonneg ui0 budget0 returned]
    show ?thesis .
  qed
  from basic abort count asked after rounds show ?thesis by blast
qed

lemma stubborn_invoke: "invoke stubborn w = (ActionRetry, w\<lparr>calls := Suc (calls w)\<rparr>)"
  by (simp add: invoke_def stubborn_def)

theorem retry_bound_witness:
  "basicStep_Run stubborn 0 (state_Put ''steps_max_retry'' (VInt 2) (fresh ())) =
     Inr (ActionHalt, retried stubborn 0 2
            (snd (invoke stubborn (state_Put ''steps_max_retry'' (VInt 2) (fresh ()))))) \<and>
   abortStep_Run stubborn 0 (state_Put ''steps_max_retry'' (VInt 2) (fresh ())) =
     Inr (ActionHalt, retried stubborn 0 2
            (snd (invoke stubborn (state_Put ''steps_max_retry'' (VInt 2) (fresh ()))))) \<and>
   calls (retried stubborn 0 2
            (snd (invoke stubborn (state_Put ''steps_max_retry'' (VInt 2) (fresh ()))))) = 3 \<and>
   askStep_Run stubborn 0 [Answer ''r'' None, Answer ''c'' None]
       (state_Put ''steps_max_retry'' (VInt 2) (fresh ())) =
     Some (Inr (ActionHalt, [],
       \<lparr>bag = [''ui'' \<mapsto> VUi 0, ''steps_max_retry'' \<mapsto> VInt 2],
        out = [UiSay 0 (RetryingStep ''StepStubborn''), UiSay 0 (RetryingStep ''StepStubborn''),
               UiSay 0 (StepFailed ''StepStubborn''), UiAsk 0,
               UiSay 0 (RetryingStep ''StepStubborn''), UiSay 0 (RetryingStep ''StepStubborn''),
               UiSay 0 (StepFailed ''StepStubborn''), UiAsk 0],
        calls = (1 + 1) * (2 + 1), priv = ()\<rparr>))"
proof -
  let ?w = "state_Put ''steps_max_retry'' (VInt 2) (fresh ())"
  have h1: "\<forall>v. fst (Run stubborn v) = ActionRetry"
    by (simp add: stubborn_def)
  have h2: "state_ui (snd (invoke stubborn ?w)) = Inr 0"
    by (simp add: stubborn_invoke state_ui_def state_Put_def fresh_def)
  have h3: "state_maxRetries (snd (invoke stubborn ?w)) = Inr 2"
    by (simp add: stubborn_invoke state_maxRetries_def state_Put_def fresh_def)
  have h4: "(0::int) \<le> 2" by simp
  have ask_run: "askStep_Run stubborn 0 [Answer ''r'' None, Answer ''c'' None] ?w =
     Some (Inr (ActionHalt, [],
       \<lparr>bag = [''ui'' \<mapsto> VUi 0, ''steps_max_retry'' \<mapsto> VInt 2],
        out = [UiSay 0 (RetryingStep ''StepStubborn''), UiSay 0 (RetryingStep ''StepStubborn''),
               UiSay 0 (StepFailed ''StepStubborn''), UiAsk 0,
               UiSay 0 (RetryingStep ''StepStubborn''), UiSay 0 (RetryingStep ''StepStubborn''),
               UiSay 0 (StepFailed ''StepStubborn''), UiAsk 0],
        calls = 6, priv = ()\<rparr>))"
    apply (subst askStep_Run.simps)
    apply (simp add: stubborn_invoke)
    apply (simp add: fresh_def state_Put_def state_ui_def state_maxRetries_def retryLoop.simps
        show_error_def stubborn_invoke ask_def askPrompt_body_parse ui_Say_def ui_Ask_def)
    apply (subst askStep_Run.simps)
    apply (simp add: stubborn_invoke)
    apply (simp add: fresh_def state_Put_def state_ui_def state_maxRetries_def retryLoop.simps
        show_error_def stubborn_invoke ask_def askPrompt_body_parse ui_Say_def ui_Ask_def)
    apply (simp add: stubborn_def)
    done
  from retry_bound [OF h1 h2 h3 h4, of 0 "[Answer ''r'' None, Answer ''c'' None]"] ask_run
  show ?thesis
    by (simp add: state_Put_def fresh_def)
qed

theorem ask_retry_doubles_the_attempts:
  "askStep_Run stubborn 0 [Answer ''r'' None, Answer ''c'' None] (fresh ()) =
     Some (Inr (ActionHalt, [],
       \<lparr>bag = [''ui'' \<mapsto> VUi 0],
        out = [UiSay 0 (StepFailed ''StepStubborn''), UiAsk 0,
               UiSay 0 (StepFailed ''StepStubborn''), UiAsk 0],
        calls = 2, priv = ()\<rparr>)) \<and>
   state_maxRetries (fresh ()) = Inr 0"
  apply (subst askStep_Run.simps)
  apply (simp add: stubborn_invoke)
  apply (simp add: fresh_def state_ui_def state_maxRetries_def retryLoop.simps show_error_def
      ask_def askPrompt_body_def Let_def strings_ToLower_def toLowerByte_def ui_Say_def ui_Ask_def)
  apply (subst askStep_Run.simps)
  apply (simp add: stubborn_invoke)
  apply (simp add: fresh_def state_ui_def state_maxRetries_def retryLoop.simps show_error_def
      ask_def askPrompt_body_def Let_def strings_ToLower_def toLowerByte_def ui_Say_def ui_Ask_def stubborn_def)
  done

section \<open>Retries that succeed\<close>

text \<open>
  C3. For every budget \<open>N\<close> and every step whose \<^verbatim>\<open>Run\<close> returns Retry exactly \<open>k \<le> N\<close> times
  and then Continue, the Basic decorated \<^verbatim>\<open>Run\<close> calls the step exactly \<open>k + 1\<close> times and
  returns Continue, and each retry is preceded by the notice that names the step.
  The first attempt is \<open>invoke s w\<close>; retry number \<open>j + 1\<close> returns \<open>retry_action s ui j\<close>.
  The budget and the user interface are only looked up when the first attempt asked for
  a retry, that is when \<open>0 < k\<close>. The last part of the conclusion spells out that every
  retry is one \<^verbatim>\<open>ui.Say\<close> of the notice and then one call of the step.
\<close>

theorem retry_success:
  assumes first: "fst (invoke s w) = (if k = 0 then ActionContinue else ActionRetry)"
    and later: "\<forall>j<k. retry_action s ui j (snd (invoke s w)) =
                         (if Suc j = k then ActionContinue else ActionRetry)"
    and within: "int k \<le> N"
    and env: "0 < k \<longrightarrow> state_ui (snd (invoke s w)) = Inr ui \<and>
                          state_maxRetries (snd (invoke s w)) = Inr N"
  shows "basicStep_Run s sui w = Inr (ActionContinue, retried s ui k (snd (invoke s w))) \<and>
         calls (retried s ui k (snd (invoke s w))) = calls w + k + 1 \<and>
         (\<forall>j<k. retried s ui (Suc j) (snd (invoke s w)) =
                 snd (invoke s (ui_Say ui (RetryingStep (typeName s))
                                  (retried s ui j (snd (invoke s w))))))"
proof -
  let ?w1 = "snd (invoke s w)"
  have count: "calls (retried s ui k ?w1) = calls w + k + 1"
    by (simp add: calls_retried calls_invoke)
  have notices: "\<forall>j<k. retried s ui (Suc j) ?w1 =
                 snd (invoke s (ui_Say ui (RetryingStep (typeName s)) (retried s ui j ?w1)))"
    using retried_Suc_end by blast
  have run: "basicStep_Run s sui w = Inr (ActionContinue, retried s ui k ?w1)"
  proof (cases k)
    case 0
    with first show ?thesis
      by (simp add: basicStep_Run_def case_prod_beta)
  next
    case (Suc m)
    have retries: "\<forall>j<m. retry_action s ui j ?w1 = ActionRetry"
      using later Suc by auto
    have last: "retry_action s ui m ?w1 = ActionContinue"
      using later Suc by auto
    have "int m < N" using within Suc by simp
    with retries last
    have "retryLoop s ui N ActionRetry 0 ?w1 = (ActionContinue, retried s ui (Suc m) ?w1)"
      by (rule retryLoop_succeeds)
    moreover have "fst (invoke s w) = ActionRetry" using first Suc by simp
    ultimately show ?thesis
      using env Suc by (simp add: basicStep_Run_def case_prod_beta)
  qed
  from run count notices show ?thesis by blast
qed

lemma flaky_invoke:
  "invoke flaky w = (if priv w = 0 then ActionContinue else ActionRetry,
                     w\<lparr>calls := Suc (calls w), priv := priv w - 1\<rparr>)"
  by (simp add: invoke_def flaky_def)

theorem retry_success_witness:
  "basicStep_Run flaky 0 (state_Put ''steps_max_retry'' (VInt 3) (fresh 2)) =
     Inr (ActionContinue,
          \<lparr>bag = [''ui'' \<mapsto> VUi 0, ''steps_max_retry'' \<mapsto> VInt 3],
           out = [UiSay 0 (RetryingStep ''StepFlaky''), UiSay 0 (RetryingStep ''StepFlaky'')],
           calls = 3, priv = 0\<rparr>)"
proof -
  let ?w = "state_Put ''steps_max_retry'' (VInt 3) (fresh (2::nat))"
  have r0: "retried flaky 0 0 (snd (invoke flaky ?w)) =
      \<lparr>bag = [''ui'' \<mapsto> VUi 0, ''steps_max_retry'' \<mapsto> VInt 3], out = [], calls = 1, priv = 1\<rparr>"
    by (simp add: flaky_invoke state_Put_def fresh_def)
  have r1: "retried flaky 0 1 (snd (invoke flaky ?w)) =
      \<lparr>bag = [''ui'' \<mapsto> VUi 0, ''steps_max_retry'' \<mapsto> VInt 3],
       out = [UiSay 0 (RetryingStep ''StepFlaky'')], calls = 2, priv = 0\<rparr>"
    by (simp add: flaky_invoke state_Put_def fresh_def ui_Say_def) (simp add: flaky_def)
  have r2: "retried flaky 0 2 (snd (invoke flaky ?w)) =
      \<lparr>bag = [''ui'' \<mapsto> VUi 0, ''steps_max_retry'' \<mapsto> VInt 3],
       out = [UiSay 0 (RetryingStep ''StepFlaky''), UiSay 0 (RetryingStep ''StepFlaky'')],
       calls = 3, priv = 0\<rparr>"
    by (simp add: numeral_2_eq_2 flaky_invoke state_Put_def fresh_def ui_Say_def) (simp add: flaky_def)
  have h1: "fst (invoke flaky ?w) = (if (2::nat) = 0 then ActionContinue else ActionRetry)"
    by (simp add: flaky_invoke state_Put_def fresh_def)
  have h2: "\<forall>j<2. retry_action flaky 0 j (snd (invoke flaky ?w)) =
                         (if Suc j = 2 then ActionContinue else ActionRetry)"
  proof (intro allI impI)
    fix j :: nat assume "j < 2"
    then have "j = 0 \<or> j = 1" by auto
    then show "retry_action flaky 0 j (snd (invoke flaky ?w)) =
                         (if Suc j = 2 then ActionContinue else ActionRetry)"
      unfolding retry_action_def using r0 r1
      by (auto simp: flaky_invoke ui_Say_def)
  qed
  have h3: "int 2 \<le> 3" by simp
  have h4: "0 < (2::nat) \<longrightarrow> state_ui (snd (invoke flaky ?w)) = Inr 0 \<and>
                          state_maxRetries (snd (invoke flaky ?w)) = Inr 3"
    by (simp add: flaky_invoke state_ui_def state_maxRetries_def state_Put_def fresh_def)
  from retry_success [OF h1 h2 h3 h4, of 0] show ?thesis
    by (simp add: r2)
qed

section \<open>A negative budget\<close>

text \<open>
  C9. If the value under \<^verbatim>\<open>steps_max_retry\<close> is a negative integer, the decorated \<^verbatim>\<open>Run\<close>
  behaves as with the budget 0: the body of the retry loop is never executed (the loop
  hands back the context it was given, so there is no retry notice and no further call of
  the step), and a first result other than Continue becomes Halt at once. As with any
  budget, the user interface is fetched from the context before the loop, which panics
  when it is missing.
\<close>

theorem negative_budget:
  assumes budget: "state_maxRetries (snd (invoke s w)) = Inr N" and neg: "N < 0"
  shows "retryLoop s ui N action 0 v = (ActionHalt, v) \<and>
         retryLoop s ui N action 0 v = retryLoop s ui 0 action 0 v \<and>
         basicStep_Run s sui w =
           (if fst (invoke s w) = ActionContinue then Inr (ActionContinue, snd (invoke s w))
            else case state_ui (snd (invoke s w)) of
                   Inl p \<Rightarrow> Inl p
                 | Inr ui' \<Rightarrow> Inr (ActionHalt, snd (invoke s w))) \<and>
         abortStep_Run s sui w =
           (if fst (invoke s w) = ActionContinue then Inr (ActionContinue, snd (invoke s w))
            else case state_ui (snd (invoke s w)) of
                   Inl p \<Rightarrow> Inl p
                 | Inr ui' \<Rightarrow> Inr (ActionHalt, snd (invoke s w)))"
proof -
  have stop: "retryLoop s u N a 0 x = (ActionHalt, x)" for u a and x :: "'a world"
    using neg by (simp add: retryLoop_stop)
  have zero: "retryLoop s u 0 a 0 x = (ActionHalt, x)" for u a and x :: "'a world"
    by (simp add: retryLoop_stop)
  have basic: "basicStep_Run s sui w =
           (if fst (invoke s w) = ActionContinue then Inr (ActionContinue, snd (invoke s w))
            else case state_ui (snd (invoke s w)) of
                   Inl p \<Rightarrow> Inl p
                 | Inr ui' \<Rightarrow> Inr (ActionHalt, snd (invoke s w)))"
    using budget by (simp add: basicStep_Run_def case_prod_beta stop split: sum.split)
  have abort: "abortStep_Run s sui w =
           (if fst (invoke s w) = ActionContinue then Inr (ActionContinue, snd (invoke s w))
            else case state_ui (snd (invoke s w)) of
                   Inl p \<Rightarrow> Inl p
                 | Inr ui' \<Rightarrow> Inr (ActionHalt, snd (invoke s w)))"
    using budget by (simp add: abortStep_Run_def case_prod_beta stop split: sum.split)
  from stop zero basic abort show ?thesis by simp
qed

theorem negative_budget_witness:
  "basicStep_Run stubborn 0 (state_Put ''steps_max_retry'' (VInt (- 3)) (fresh ())) =
     Inr (ActionHalt, \<lparr>bag = [''ui'' \<mapsto> VUi 0, ''steps_max_retry'' \<mapsto> VInt (- 3)],
                       out = [], calls = 1, priv = ()\<rparr>)"
proof -
  let ?w = "state_Put ''steps_max_retry'' (VInt (- 3)) (fresh ())"
  have h1: "state_maxRetries (snd (invoke stubborn ?w)) = Inr (- 3)"
    by (simp add: stubborn_invoke state_maxRetries_def state_Put_def fresh_def)
  have h2: "(- 3 :: int) < 0" by simp
  from negative_budget [OF h1 h2, of 0 ActionRetry ?w 0] show ?thesis
    by (simp add: stubborn_invoke state_ui_def state_Put_def fresh_def)
qed

lemma calls_retryLoop:
  "retryLoop s ui m a r w = (a', w') \<Longrightarrow> calls w' \<le> calls w + nat (m - r)"
proof (induction s ui m a r w rule: retryLoop.induct)
  case (1 s ui maxRetries action retries w)
  show ?case
  proof (cases "action = ActionRetry \<and> retries < maxRetries")
    case False
    with "1.prems" show ?thesis by (simp add: retryLoop_stop)
  next
    case True
    let ?r = "invoke s (ui_Say ui (RetryingStep (typeName s)) w)"
    have c: "calls (snd ?r) = Suc (calls w)"
      by (simp add: calls_invoke calls_ui_Say)
    show ?thesis
    proof (cases "fst ?r = ActionContinue")
      case yes: True
      from "1.prems" True yes have "w' = snd ?r"
        by (subst (asm) retryLoop.simps) (simp add: case_prod_beta)
      moreover have "0 < nat (maxRetries - retries)" using True by simp
      ultimately show ?thesis using c by simp
    next
      case no: False
      from "1.prems" True no
      have "retryLoop s ui maxRetries (fst ?r) (retries + 1) (snd ?r) = (a', w')"
        by (subst (asm) retryLoop.simps) (simp add: case_prod_beta)
      with "1.IH" [OF True _ no, of "snd ?r"]
      have "calls w' \<le> calls (snd ?r) + nat (maxRetries - (retries + 1))"
        by (simp add: prod_eq_iff)
      moreover have "nat (maxRetries - retries) = Suc (nat (maxRetries - (retries + 1)))"
        using True by linarith
      ultimately show ?thesis using c by simp
    qed
  qed
qed

lemma fresh_agrees:
  "\<forall>v. bag (snd (Run s v)) ''steps_max_retry'' = bag v ''steps_max_retry'' \<Longrightarrow>
   state_maxRetries w = Inr m \<Longrightarrow> nat (m - r) < fuel \<Longrightarrow>
   retryLoop_fresh fuel s ui a r w = Some (Inr (retryLoop s ui m a r w))"
proof (induction s ui m a r w arbitrary: fuel rule: retryLoop.induct)
  case (1 s ui maxRetries action retries w)
  note keep = "1.prems"(1) and budget = "1.prems"(2) and enough = "1.prems"(3)
  from enough obtain f where fuel: "fuel = Suc f" by (cases fuel) auto
  show ?case
  proof (cases "action = ActionRetry \<and> retries < maxRetries")
    case False
    with budget fuel show ?thesis by (auto simp add: retryLoop_stop)
  next
    case True
    let ?r = "invoke s (ui_Say ui (RetryingStep (typeName s)) w)"
    have kept: "bag (snd (Run s v)) ''steps_max_retry'' = bag v ''steps_max_retry''" for v
      using keep by blast
    have "bag (snd ?r) ''steps_max_retry'' = bag w ''steps_max_retry''"
      by (simp add: invoke_def case_prod_beta ui_Say_def kept)
    then have same: "state_maxRetries (snd ?r) = Inr maxRetries"
      using budget by (simp add: state_maxRetries_def)
    show ?thesis
    proof (cases "fst ?r = ActionContinue")
      case yes: True
      have "retryLoop s ui maxRetries action retries w = ?r"
        using True yes by (subst retryLoop.simps) (simp add: case_prod_beta prod_eq_iff)
      then show ?thesis
        using True yes budget fuel by (simp add: case_prod_beta prod_eq_iff)
    next
      case no: False
      have loop: "retryLoop s ui maxRetries action retries w =
                  retryLoop s ui maxRetries (fst ?r) (retries + 1) (snd ?r)"
        using True no by (subst retryLoop.simps) (simp add: case_prod_beta)
      have less: "nat (maxRetries - (retries + 1)) < f"
        using enough fuel True by linarith
      have "retryLoop_fresh f s ui (fst ?r) (retries + 1) (snd ?r) =
            Some (Inr (retryLoop s ui maxRetries (fst ?r) (retries + 1) (snd ?r)))"
        using "1.IH" [OF True _ no keep same less] by (simp add: prod_eq_iff)
      then show ?thesis
        using True no budget fuel loop by (simp add: case_prod_beta)
    qed
  qed
qed

section \<open>When the budget is read\<close>

text \<open>
  C4. The claim: the budget is read from the run context afresh at every retry decision
  of one decorated \<^verbatim>\<open>Run\<close>, so that a step that changes \<^verbatim>\<open>steps_max_retry\<close> during its own
  \<^verbatim>\<open>Run\<close> changes the decisions that follow. The code reads the key once, into the local
  \<^verbatim>\<open>maxRetries\<close>, when the first attempt has returned something other than Continue, and
  the loop compares against that local only. This happens once in a \<^verbatim>\<open>Run\<close> of the Basic
  and of the Abort decorator, and once in every round of the outer loop of the Ask
  decorator, which begins a new round, with a new first attempt and a new reading, when
  the operator answers retry. What holds, with \<open>N\<close> the value found at that moment:
  Basic and Abort return the result of the loop run with \<open>N\<close>, whatever the step writes
  later; Ask goes to its prompt with the result of that same loop, or returns Continue
  if the loop does; the loop calls the step at most \<open>N\<close> times, so the step has been called
  at most \<open>1 + N\<close> times when the loop is left; and for a step that leaves the key alone
  the loop gives what reading the key afresh at every decision would give.
\<close>

theorem budget_read_once:
  assumes ui: "state_ui (snd (invoke s w)) = Inr ui"
    and budget: "state_maxRetries (snd (invoke s w)) = Inr N"
    and failed: "fst (invoke s w) \<noteq> ActionContinue"
  shows "basicStep_Run s sui w = Inr (retryLoop s ui N (fst (invoke s w)) 0 (snd (invoke s w))) \<and>
         abortStep_Run s sui w = Inr (retryLoop s ui N (fst (invoke s w)) 0 (snd (invoke s w))) \<and>
         askStep_Run s sui es w =
           (case retryLoop s ui N (fst (invoke s w)) 0 (snd (invoke s w)) of
              (action, w2) \<Rightarrow>
                if action = ActionContinue then Some (Inr (action, es, w2))
                else (case ask sui (typeName s) es (show_error sui w2) of
                        None \<Rightarrow> None
                      | Some (r, es', w3) \<Rightarrow>
                          if r = askRetry then askStep_Run s sui es' w3
                          else Some (Inr (ActionHalt, es',
                                 if r = askAbort then state_Put ''aborted'' (VBool True) w3 else w3)))) \<and>
         calls (snd (retryLoop s ui N (fst (invoke s w)) 0 (snd (invoke s w)))) \<le> calls w + 1 + nat N \<and>
         ((\<forall>v. bag (snd (Run s v)) ''steps_max_retry'' = bag v ''steps_max_retry'') \<longrightarrow>
          nat N < fuel \<longrightarrow>
          retryLoop_fresh fuel s ui (fst (invoke s w)) 0 (snd (invoke s w)) =
            Some (Inr (retryLoop s ui N (fst (invoke s w)) 0 (snd (invoke s w)))))"
proof -
  let ?a = "fst (invoke s w)" and ?w1 = "snd (invoke s w)"
  have basic: "basicStep_Run s sui w = Inr (retryLoop s ui N ?a 0 ?w1)"
    using ui budget failed by (simp add: basicStep_Run_def case_prod_beta)
  have abort: "abortStep_Run s sui w = Inr (retryLoop s ui N ?a 0 ?w1)"
    using ui budget failed by (simp add: abortStep_Run_def case_prod_beta)
  have asked: "askStep_Run s sui es w =
           (case retryLoop s ui N ?a 0 ?w1 of
              (action, w2) \<Rightarrow>
                if action = ActionContinue then Some (Inr (action, es, w2))
                else (case ask sui (typeName s) es (show_error sui w2) of
                        None \<Rightarrow> None
                      | Some (r, es', w3) \<Rightarrow>
                          if r = askRetry then askStep_Run s sui es' w3
                          else Some (Inr (ActionHalt, es',
                                 if r = askAbort then state_Put ''aborted'' (VBool True) w3 else w3))))"
    by (subst askStep_Run_pass) (simp add: basic)
  have "calls (snd (retryLoop s ui N ?a 0 ?w1)) \<le> calls ?w1 + nat (N - 0)"
    by (rule calls_retryLoop [of s ui N ?a 0 ?w1 "fst (retryLoop s ui N ?a 0 ?w1)"]) simp
  then have bound: "calls (snd (retryLoop s ui N ?a 0 ?w1)) \<le> calls w + 1 + nat N"
    by (simp add: calls_invoke)
  have agree: "retryLoop_fresh fuel s ui ?a 0 ?w1 = Some (Inr (retryLoop s ui N ?a 0 ?w1))"
    if "\<forall>v. bag (snd (Run s v)) ''steps_max_retry'' = bag v ''steps_max_retry''"
      and "nat N < fuel"
    using fresh_agrees [OF that(1) budget, of 0 fuel ui ?a] that(2) by simp
  from basic abort asked bound agree show ?thesis by blast
qed

theorem budget_read_once_witness:
  "basicStep_Run stubborn 0 (state_Put ''steps_max_retry'' (VInt 1) (fresh ())) =
     Inr (ActionHalt, \<lparr>bag = [''ui'' \<mapsto> VUi 0, ''steps_max_retry'' \<mapsto> VInt 1],
                       out = [UiSay 0 (RetryingStep ''StepStubborn'')], calls = 2, priv = ()\<rparr>) \<and>
   abortStep_Run stubborn 0 (state_Put ''steps_max_retry'' (VInt 1) (fresh ())) =
     Inr (ActionHalt, \<lparr>bag = [''ui'' \<mapsto> VUi 0, ''steps_max_retry'' \<mapsto> VInt 1],
                       out = [UiSay 0 (RetryingStep ''StepStubborn'')], calls = 2, priv = ()\<rparr>) \<and>
   askStep_Run stubborn 0 [Answer ''c'' None] (state_Put ''steps_max_retry'' (VInt 1) (fresh ())) =
     Some (Inr (ActionHalt, [],
        \<lparr>bag = [''ui'' \<mapsto> VUi 0, ''steps_max_retry'' \<mapsto> VInt 1],
         out = [UiSay 0 (RetryingStep ''StepStubborn''),
                UiSay 0 (StepFailed ''StepStubborn''), UiAsk 0], calls = 2, priv = ()\<rparr>)) \<and>
   retryLoop_fresh 2 stubborn 0 ActionRetry 0
       (snd (invoke stubborn (state_Put ''steps_max_retry'' (VInt 1) (fresh ())))) =
     Some (basicStep_Run stubborn 0 (state_Put ''steps_max_retry'' (VInt 1) (fresh ())))"
proof -
  let ?w = "state_Put ''steps_max_retry'' (VInt 1) (fresh ())"
  have h1: "state_ui (snd (invoke stubborn ?w)) = Inr 0"
    by (simp add: stubborn_invoke state_ui_def state_Put_def fresh_def)
  have h2: "state_maxRetries (snd (invoke stubborn ?w)) = Inr 1"
    by (simp add: stubborn_invoke state_maxRetries_def state_Put_def fresh_def)
  have h3: "fst (invoke stubborn ?w) \<noteq> ActionContinue"
    by (simp add: stubborn_invoke)
  have keep: "\<forall>v. bag (snd (Run stubborn v)) ''steps_max_retry'' = bag v ''steps_max_retry''"
    by (simp add: stubborn_def)
  have loop: "retryLoop stubborn 0 1 ActionRetry 0 (snd (invoke stubborn ?w)) =
     (ActionHalt, \<lparr>bag = [''ui'' \<mapsto> VUi 0, ''steps_max_retry'' \<mapsto> VInt 1],
                       out = [UiSay 0 (RetryingStep ''StepStubborn'')], calls = 2, priv = ()\<rparr>)"
    by (simp add: retryLoop.simps stubborn_invoke state_Put_def fresh_def ui_Say_def)
       (simp add: stubborn_def)
  have prompt: "ask 0 (typeName stubborn) [Answer ''c'' None]
       (show_error 0 \<lparr>bag = [''ui'' \<mapsto> VUi 0, ''steps_max_retry'' \<mapsto> VInt 1],
                       out = [UiSay 0 (RetryingStep ''StepStubborn'')], calls = 2, priv = ()\<rparr>) =
     Some (askCleanup, [],
        \<lparr>bag = [''ui'' \<mapsto> VUi 0, ''steps_max_retry'' \<mapsto> VInt 1],
         out = [UiSay 0 (RetryingStep ''StepStubborn''),
                UiSay 0 (StepFailed ''StepStubborn''), UiAsk 0], calls = 2, priv = ()\<rparr>)"
    by (simp add: ask_def show_error_def askPrompt_body_parse ui_Say_def ui_Ask_def stubborn_def)
  from budget_read_once [OF h1 h2 h3, of 0 "[Answer ''c'' None]" 2] keep loop prompt show ?thesis
    by (simp add: stubborn_invoke)
qed

lemma meddler_invoke:
  "invoke meddler w =
     (ActionRetry, w\<lparr>bag := (bag w)(''steps_max_retry'' \<mapsto> VInt (if priv w = 0 then 2 else 0)),
                     calls := Suc (calls w), priv := Suc (priv w)\<rparr>)"
  by (simp add: invoke_def meddler_def)

theorem budget_not_read_afresh:
  "basicStep_Run meddler 0 (fresh 0) =
     Inr (ActionHalt,
          \<lparr>bag = [''ui'' \<mapsto> VUi 0, ''steps_max_retry'' \<mapsto> VInt 0],
           out = [UiSay 0 (RetryingStep ''StepMeddler''), UiSay 0 (RetryingStep ''StepMeddler'')],
           calls = 3, priv = 3\<rparr>) \<and>
   retryLoop_fresh 3 meddler 0 ActionRetry 0 (snd (invoke meddler (fresh 0))) =
     Some (Inr (ActionHalt,
          \<lparr>bag = [''ui'' \<mapsto> VUi 0, ''steps_max_retry'' \<mapsto> VInt 0],
           out = [UiSay 0 (RetryingStep ''StepMeddler'')],
           calls = 2, priv = 2\<rparr>))"
  apply (simp add: basicStep_Run_def meddler_invoke fresh_def state_ui_def state_maxRetries_def
      retryLoop.simps ui_Say_def numeral_3_eq_3)
  apply (simp add: meddler_def)
  done

section \<open>The prompt\<close>

text \<open>
  C8. For every line the operator enters at the failure prompt, the outcome is decided
  by its first character without regard to case: a line that starts with \<^verbatim>\<open>c\<close> or \<^verbatim>\<open>C\<close>
  and the empty line give Cleanup, \<^verbatim>\<open>a\<close> or \<^verbatim>\<open>A\<close> gives Abort, \<^verbatim>\<open>r\<close> or \<^verbatim>\<open>R\<close> gives Retry,
  and any other first character gives the notice of the incorrect input (shown with
  \<^verbatim>\<open>ui.Say\<close>) and a new round of the prompt on what is entered next, not a default.
  Here \<open>w1\<close> is the context once \<^verbatim>\<open>ui.Ask\<close> has put its question and returned.
\<close>

theorem prompt_first_character:
  "askPrompt ui ((line, err) # rest) w =
     (let w1 = (case err of Some e \<Rightarrow> log_Printf e (ui_Ask ui w) | None \<Rightarrow> ui_Ask ui w) in
      case line of
        [] \<Rightarrow> Some (askCleanup, rest, w1)
      | x # _ \<Rightarrow>
          if x = CHR ''c'' \<or> x = CHR ''C'' then Some (askCleanup, rest, w1)
          else if x = CHR ''a'' \<or> x = CHR ''A'' then Some (askAbort, rest, w1)
          else if x = CHR ''r'' \<or> x = CHR ''R'' then Some (askRetry, rest, w1)
          else askPrompt ui rest (ui_Say ui (IncorrectInput line) w1))"
  by (cases line) (simp_all add: askPrompt_body_parse Let_def)

text \<open>
  C10. If \<^verbatim>\<open>ui.Ask\<close> returns an error, \<^verbatim>\<open>askPrompt\<close> neither hands the error on nor leaves its
  loop: the error goes to the log, and the line that came with it is read by its first
  character as any other line (\<^verbatim>\<open>c\<close>, \<^verbatim>\<open>C\<close> or the empty line: Cleanup; \<^verbatim>\<open>a\<close>, \<^verbatim>\<open>A\<close>: Abort;
  \<^verbatim>\<open>r\<close>, \<^verbatim>\<open>R\<close>: Retry; anything else: the notice and another round). An error that comes
  with the empty line gives Cleanup. Here \<open>w1\<close> is the context once \<^verbatim>\<open>ui.Ask\<close> has put its
  question and the error has been logged.
\<close>

theorem prompt_error_is_logged:
  "askPrompt ui ((line, Some e) # rest) w =
     (let w1 = log_Printf e (ui_Ask ui w) in
      case line of
        [] \<Rightarrow> Some (askCleanup, rest, w1)
      | x # _ \<Rightarrow>
          if x = CHR ''c'' \<or> x = CHR ''C'' then Some (askCleanup, rest, w1)
          else if x = CHR ''a'' \<or> x = CHR ''A'' then Some (askAbort, rest, w1)
          else if x = CHR ''r'' \<or> x = CHR ''R'' then Some (askRetry, rest, w1)
          else askPrompt ui rest (ui_Say ui (IncorrectInput line) w1)) \<and>
   askPrompt_body ui line (Some e) w = askPrompt_body ui line None (log_Printf e w) \<and>
   askPrompt ui ((line, Some e) # rest) w =
     (case askPrompt_body ui line None (log_Printf e (ui_Ask ui w)) of
        (Some r, w') \<Rightarrow> Some (r, rest, w')
      | (None, w') \<Rightarrow> askPrompt ui rest w') \<and>
   askPrompt ui (('''', Some e) # rest) w = Some (askCleanup, rest, log_Printf e (ui_Ask ui w))"
proof -
  have parse: "askPrompt ui ((line, Some e) # rest) w =
     (let w1 = log_Printf e (ui_Ask ui w) in
      case line of
        [] \<Rightarrow> Some (askCleanup, rest, w1)
      | x # _ \<Rightarrow>
          if x = CHR ''c'' \<or> x = CHR ''C'' then Some (askCleanup, rest, w1)
          else if x = CHR ''a'' \<or> x = CHR ''A'' then Some (askAbort, rest, w1)
          else if x = CHR ''r'' \<or> x = CHR ''R'' then Some (askRetry, rest, w1)
          else askPrompt ui rest (ui_Say ui (IncorrectInput line) w1))"
    by (cases line) (simp_all add: askPrompt_body_parse Let_def)
  have others: "askPrompt_body ui line (Some e) w = askPrompt_body ui line None (log_Printf e w) \<and>
   askPrompt ui ((line, Some e) # rest) w =
     (case askPrompt_body ui line None (log_Printf e (ui_Ask ui w)) of
        (Some r, w') \<Rightarrow> Some (r, rest, w')
      | (None, w') \<Rightarrow> askPrompt ui rest w') \<and>
   askPrompt ui (('''', Some e) # rest) w = Some (askCleanup, rest, log_Printf e (ui_Ask ui w))"
    by (simp add: askPrompt_body_def Let_def strings_ToLower_def)
  from parse others show ?thesis by blast
qed

lemma ask_waiting_append:
  "ask_waiting ui xs w = Some v \<Longrightarrow> ask_select ui (xs @ ys) w = ask_select ui ys v"
  by (induction ui xs w rule: ask_waiting.induct)
     (auto split: if_splits prod.splits option.splits)

section \<open>Cancellation while the operator is asked\<close>

text \<open>
  C7. The claim: if the cancellation key is set before the operator answers, \<^verbatim>\<open>ask\<close>
  returns Cleanup, never Abort or Retry, within one poll interval of 100 ms, whatever
  the abandoned read returns later. The key is only looked at when the timer of the
  \<^verbatim>\<open>select\<close> fires; an answer that arrives after the key was set and before the timer
  fires is received by the other case of the \<^verbatim>\<open>select\<close> and returned. What holds, for
  every course of occurrences \<open>before\<close> after which \<^verbatim>\<open>ask\<close> is still waiting, in the context
  \<open>v\<close>: if the key is set in \<open>v\<close> when the timer fires next, \<^verbatim>\<open>ask\<close> returns Cleanup at that
  very poll, whatever comes in afterwards (\<open>rest\<close>); and if instead a line comes in that
  \<^verbatim>\<open>askPrompt\<close> accepts as an answer, \<^verbatim>\<open>ask\<close> returns that answer, whether the key is set or
  not. Durations are not part of this model; the poll interval appears as the
  occurrence \<open>TimerFires\<close>.
\<close>

theorem cancelled_prompt:
  assumes waiting: "ask_waiting ui before (ui_Ask ui (ui_Say ui (StepFailed name) w)) = Some v"
  shows "(bag v StateCancelled \<noteq> None \<longrightarrow>
            ask ui name (before @ TimerFires # rest) w = Some (askCleanup, rest, v)) \<and>
         (fst (askPrompt_body ui line err v) = Some response \<longrightarrow>
            ask ui name (before @ Answer line err # rest) w =
              Some (response, rest, snd (askPrompt_body ui line err v)))"
  using ask_waiting_append [OF waiting, of "TimerFires # rest"]
    ask_waiting_append [OF waiting, of "Answer line err # rest"]
  by (auto simp: ask_def split: prod.splits option.splits)

theorem cancelled_prompt_witness:
  "ask 0 ''StepStubborn'' ([Answer ''x'' None, Cancel] @ TimerFires # [Answer ''a'' None]) (fresh ()) =
     Some (askCleanup, [Answer ''a'' None],
           \<lparr>bag = [''ui'' \<mapsto> VUi 0, StateCancelled \<mapsto> VBool True],
            out = [UiSay 0 (StepFailed ''StepStubborn''), UiAsk 0,
                   UiSay 0 (IncorrectInput ''x''), UiAsk 0],
            calls = 0, priv = ()\<rparr>) \<and>
   ask 0 ''StepStubborn'' ([Answer ''x'' None, Cancel] @ Answer ''R'' None # [TimerFires]) (fresh ()) =
     Some (askRetry, [TimerFires],
           \<lparr>bag = [''ui'' \<mapsto> VUi 0, StateCancelled \<mapsto> VBool True],
            out = [UiSay 0 (StepFailed ''StepStubborn''), UiAsk 0,
                   UiSay 0 (IncorrectInput ''x''), UiAsk 0],
            calls = 0, priv = ()\<rparr>)"
proof -
  let ?v = "\<lparr>bag = [''ui'' \<mapsto> VUi 0, StateCancelled \<mapsto> VBool True],
            out = [UiSay 0 (StepFailed ''StepStubborn''), UiAsk 0,
                   UiSay 0 (IncorrectInput ''x''), UiAsk 0],
            calls = 0, priv = ()\<rparr>"
  have h1: "ask_waiting 0 [Answer ''x'' None, Cancel]
              (ui_Ask 0 (ui_Say 0 (StepFailed ''StepStubborn'') (fresh ()))) = Some ?v"
    by (simp add: askPrompt_body_parse ui_Ask_def ui_Say_def fresh_def state_Put_def)
  have h2: "bag ?v StateCancelled \<noteq> None" by simp
  have h3: "askPrompt_body 0 ''R'' None ?v = (Some askRetry, ?v)"
    by (simp add: askPrompt_body_parse)
  from cancelled_prompt [OF h1, of "[Answer ''a'' None]" "''R''" None askRetry] h2
  have a: "ask 0 ''StepStubborn'' ([Answer ''x'' None, Cancel] @ TimerFires # [Answer ''a'' None]) (fresh ()) =
     Some (askCleanup, [Answer ''a'' None], ?v)"
    by blast
  from cancelled_prompt [OF h1, of "[TimerFires]" "''R''" None askRetry] h3
  have b: "ask 0 ''StepStubborn'' ([Answer ''x'' None, Cancel] @ Answer ''R'' None # [TimerFires]) (fresh ()) =
     Some (askRetry, [TimerFires], ?v)"
    by simp
  from a b show ?thesis by simp
qed

theorem answer_beats_cancellation:
  "ask 0 ''StepStubborn'' [Cancel, Answer ''a'' None, TimerFires] (fresh ()) =
     Some (askAbort, [TimerFires],
           \<lparr>bag = [''ui'' \<mapsto> VUi 0, StateCancelled \<mapsto> VBool True],
            out = [UiSay 0 (StepFailed ''StepStubborn''), UiAsk 0], calls = 0, priv = ()\<rparr>)"
  by (simp add: ask_def ui_Ask_def ui_Say_def fresh_def state_Put_def askPrompt_body_parse)

section \<open>The Ask decorator\<close>

text \<open>
  C6. Under the Ask policy, when the operator's answer to the prompt is Abort, the
  decorated \<^verbatim>\<open>Run\<close> puts \<^verbatim>\<open>true\<close> under \<^verbatim>\<open>"aborted"\<close> and returns Halt; and the decorator's
  \<^verbatim>\<open>Cleanup\<close> consults the cleanup coordinator only when \<^verbatim>\<open>"aborted"\<close> is in the bag (then
  it does what the Abort decorator's \<^verbatim>\<open>Cleanup\<close> does), and otherwise calls the wrapped
  step's \<^verbatim>\<open>Cleanup\<close> whatever the cancellation and halt keys say. The hypotheses say that
  the attempts of the step ended without Continue in the context \<open>w2\<close>, and that the answer
  to the prompt put there is Abort.
\<close>

theorem ask_abort:
  assumes failed: "fst (invoke s w) \<noteq> ActionContinue"
    and ui: "state_ui (snd (invoke s w)) = Inr ui"
    and budget: "state_maxRetries (snd (invoke s w)) = Inr N"
    and loop: "retryLoop s ui N (fst (invoke s w)) 0 (snd (invoke s w)) = (ActionHalt, w2)"
    and answer: "ask sui (typeName s) es (show_error sui w2) = Some (askAbort, es', w3)"
  shows "askStep_Run s sui es w =
           Some (Inr (ActionHalt, es', state_Put ''aborted'' (VBool True) w3)) \<and>
         bag (state_Put ''aborted'' (VBool True) w3) ''aborted'' = Some (VBool True) \<and>
         (bag v ''aborted'' = None \<longrightarrow> askStep_Cleanup s sui v = Cleanup s v) \<and>
         (bag v ''aborted'' \<noteq> None \<longrightarrow>
            askStep_Cleanup s sui v =
              (case handleAbortsAndInterupts v sui (typeName s) of
                 (shouldCleanup, v') \<Rightarrow> if shouldCleanup then Cleanup s v' else v') \<and>
            askStep_Cleanup s sui v = abortStep_Cleanup s sui v)"
proof -
  have "basicStep_Run s sui w = Inr (ActionHalt, w2)"
    using failed ui budget loop by (simp add: basicStep_Run_def case_prod_beta)
  then have run: "askStep_Run s sui es w =
           Some (Inr (ActionHalt, es', state_Put ''aborted'' (VBool True) w3))"
    using answer by (subst askStep_Run_pass) simp
  have flag: "bag (state_Put ''aborted'' (VBool True) w3) ''aborted'' = Some (VBool True)"
    by (simp add: state_Put_def)
  have cleanup: "(bag v ''aborted'' = None \<longrightarrow> askStep_Cleanup s sui v = Cleanup s v) \<and>
         (bag v ''aborted'' \<noteq> None \<longrightarrow>
            askStep_Cleanup s sui v =
              (case handleAbortsAndInterupts v sui (typeName s) of
                 (shouldCleanup, v') \<Rightarrow> if shouldCleanup then Cleanup s v' else v') \<and>
            askStep_Cleanup s sui v = abortStep_Cleanup s sui v)"
    by (auto simp: askStep_Cleanup_def abortStep_Cleanup_def split: prod.split)
  from run flag cleanup show ?thesis by blast
qed

theorem ask_abort_witness:
  "askStep_Run stubborn 0 [Answer ''A'' None] (fresh ()) =
     Some (Inr (ActionHalt, [],
       \<lparr>bag = [''ui'' \<mapsto> VUi 0, ''aborted'' \<mapsto> VBool True],
        out = [UiSay 0 (StepFailed ''StepStubborn''), UiAsk 0], calls = 1, priv = ()\<rparr>)) \<and>
   askStep_Cleanup stubborn 0 (state_Put StateHalted (VBool True) (fresh ())) =
     state_Put StateHalted (VBool True) (fresh ()) \<and>
   askStep_Cleanup stubborn 0 (state_Put ''aborted'' (VBool True) (state_Put StateHalted (VBool True) (fresh ()))) =
     abortStep_Cleanup stubborn 0 (state_Put ''aborted'' (VBool True) (state_Put StateHalted (VBool True) (fresh ())))"
proof -
  let ?w2 = "(fresh ())\<lparr>calls := 1\<rparr>"
  let ?w3 = "\<lparr>bag = [''ui'' \<mapsto> VUi 0],
        out = [UiSay 0 (StepFailed ''StepStubborn''), UiAsk 0], calls = 1, priv = ()\<rparr>"
  have h1: "fst (invoke stubborn (fresh ())) \<noteq> ActionContinue"
    by (simp add: stubborn_invoke)
  have h2: "state_ui (snd (invoke stubborn (fresh ()))) = Inr 0"
    by (simp add: stubborn_invoke state_ui_def fresh_def)
  have h3: "state_maxRetries (snd (invoke stubborn (fresh ()))) = Inr 0"
    by (simp add: stubborn_invoke state_maxRetries_def fresh_def)
  have h4: "retryLoop stubborn 0 0 (fst (invoke stubborn (fresh ()))) 0 (snd (invoke stubborn (fresh ())))
            = (ActionHalt, ?w2)"
    by (simp add: stubborn_invoke retryLoop_stop fresh_def)
  have h5: "ask 0 (typeName stubborn) [Answer ''A'' None] (show_error 0 ?w2) = Some (askAbort, [], ?w3)"
    by (simp add: ask_def show_error_def fresh_def ui_Ask_def ui_Say_def askPrompt_body_parse stubborn_def)
  have v1: "bag (state_Put StateHalted (VBool True) (fresh ())) ''aborted'' = None"
    by (simp add: state_Put_def fresh_def StateHalted_def)
  have v2: "bag (state_Put ''aborted'' (VBool True) (state_Put StateHalted (VBool True) (fresh ()))) ''aborted'' \<noteq> None"
    by (simp add: state_Put_def)
  from ask_abort [OF h1 h2 h3 h4 h5, of "state_Put StateHalted (VBool True) (fresh ())"] v1
  have a: "askStep_Run stubborn 0 [Answer ''A'' None] (fresh ()) =
     Some (Inr (ActionHalt, [], state_Put ''aborted'' (VBool True) ?w3))"
    and b: "askStep_Cleanup stubborn 0 (state_Put StateHalted (VBool True) (fresh ())) =
     Cleanup stubborn (state_Put StateHalted (VBool True) (fresh ()))"
    by simp_all
  from ask_abort [OF h1 h2 h3 h4 h5,
      of "state_Put ''aborted'' (VBool True) (state_Put StateHalted (VBool True) (fresh ()))"] v2
  have c: "askStep_Cleanup stubborn 0 (state_Put ''aborted'' (VBool True) (state_Put StateHalted (VBool True) (fresh ()))) =
     abortStep_Cleanup stubborn 0 (state_Put ''aborted'' (VBool True) (state_Put StateHalted (VBool True) (fresh ())))"
    by blast
  from a b c show ?thesis
    by (simp add: state_Put_def stubborn_def)
qed

lemma handle_logged:
  "bag w ''abort_step_logged'' \<noteq> None \<Longrightarrow>
   handleAbortsAndInterupts w ui n =
     (if bag w StateCancelled \<noteq> None \<or> bag w StateHalted \<noteq> None
        then (False, ui_Error ui (SkippingCleanup n) w)
        else (True, w))"
  by (auto simp: handleAbortsAndInterupts_def Let_def split: option.split)

lemma handle_keeps_flag:
  "bag w ''abort_step_logged'' \<noteq> None \<Longrightarrow>
   bag (snd (handleAbortsAndInterupts w ui n)) ''abort_step_logged'' \<noteq> None"
  by (simp add: handle_logged ui_Error_def)

lemma handle_logged_errors:
  "bag w ''abort_step_logged'' \<noteq> None \<Longrightarrow>
   filter is_error_notice (out (snd (handleAbortsAndInterupts w ui n))) = filter is_error_notice (out w) \<and>
   filter is_aborting_notice (out (snd (handleAbortsAndInterupts w ui n))) = filter is_aborting_notice (out w)"
  by (simp add: handle_logged ui_Error_def is_error_notice_def is_aborting_notice_def)

lemma handle_first:
  "bag w ''abort_step_logged'' = None \<Longrightarrow>
   (filter is_error_notice (out (snd (handleAbortsAndInterupts w ui n))) = filter is_error_notice (out w) \<or>
    length (filter is_error_notice (out (snd (handleAbortsAndInterupts w ui n)))) =
      Suc (length (filter is_error_notice (out w))) \<and>
    bag (snd (handleAbortsAndInterupts w ui n)) ''abort_step_logged'' \<noteq> None) \<and>
   (filter is_aborting_notice (out (snd (handleAbortsAndInterupts w ui n))) = filter is_aborting_notice (out w) \<or>
    length (filter is_aborting_notice (out (snd (handleAbortsAndInterupts w ui n)))) =
      Suc (length (filter is_aborting_notice (out w))) \<and>
    bag (snd (handleAbortsAndInterupts w ui n)) ''abort_step_logged'' \<noteq> None)"
  by (auto simp: handleAbortsAndInterupts_def Let_def ui_Error_def state_Put_def
      is_error_notice_def is_aborting_notice_def StateCancelled_def StateHalted_def
      split: option.split)

lemma coordinate_keeps_flag:
  "\<forall>c\<in>set cs. keeps_flag (fst c) \<Longrightarrow>
   bag w ''abort_step_logged'' \<noteq> None \<Longrightarrow>
   bag (coordinate cs w) ''abort_step_logged'' \<noteq> None"
proof (induction cs arbitrary: w)
  case Nil
  then show ?case by simp
next
  case (Cons c cs)
  obtain g ui n where c: "c = (g, ui, n)" by (cases c)
  let ?v = "w\<lparr>bag := g (bag w)\<rparr>"
  from Cons.prems c have "bag ?v ''abort_step_logged'' \<noteq> None" by (simp add: keeps_flag_def)
  then have "bag (snd (handleAbortsAndInterupts ?v ui n)) ''abort_step_logged'' \<noteq> None"
    by (rule handle_keeps_flag)
  moreover from Cons.prems(1) have "\<forall>c\<in>set cs. keeps_flag (fst c)"
    by simp
  ultimately show ?case using Cons.IH c by simp
qed

lemma coordinate_counts:
  "\<forall>c\<in>set cs. keeps_flag (fst c) \<Longrightarrow>
   length (filter is_error_notice (out (coordinate cs w)))
     \<le> length (filter is_error_notice (out w)) + (if bag w ''abort_step_logged'' \<noteq> None then 0 else 1) \<and>
   length (filter is_aborting_notice (out (coordinate cs w)))
     \<le> length (filter is_aborting_notice (out w)) + (if bag w ''abort_step_logged'' \<noteq> None then 0 else 1)"
proof (induction cs arbitrary: w)
  case Nil
  then show ?case by simp
next
  case (Cons c cs)
  obtain g ui n where c: "c = (g, ui, n)" by (cases c)
  let ?v = "w\<lparr>bag := g (bag w)\<rparr>"
  let ?w' = "snd (handleAbortsAndInterupts ?v ui n)"
  from Cons.prems have env: "\<forall>c\<in>set cs. keeps_flag (fst c)"
    by simp
  note IH = Cons.IH [OF env, of ?w']
  have step: "coordinate (c # cs) w = coordinate cs ?w'" using c by simp
  have outv: "out ?v = out w" by simp
  show ?case
  proof (cases "bag ?v ''abort_step_logged'' \<noteq> None")
    case True
    from handle_logged_errors [OF True, of ui n] handle_keeps_flag [OF True, of ui n] IH
    show ?thesis unfolding step outv by simp
  next
    case False
    then have unset: "bag ?v ''abort_step_logged'' = None" by simp
    have w_unset: "bag w ''abort_step_logged'' = None"
    proof (rule ccontr)
      assume "bag w ''abort_step_logged'' \<noteq> None"
      with Cons.prems c have "g (bag w) ''abort_step_logged'' \<noteq> None" by (simp add: keeps_flag_def)
      with unset show False by simp
    qed
    from handle_first [OF unset, of ui n] IH w_unset
    show ?thesis unfolding step outv by (auto split: if_splits)
  qed
qed

section \<open>The cleanup coordinator logs once\<close>

text \<open>
  C5. The claim: across every run and any number of calls of the cleanup coordinator
  \<^verbatim>\<open>handleAbortsAndInterupts\<close>, the key \<^verbatim>\<open>"abort_step_logged"\<close>, once set, is never cleared;
  the notice of the recorded error and the aborting notice are each emitted at most
  once per run; and every call made after the first logging while the run is cancelled
  or halted emits only the skip notice and returns false. Counted over a whole run, the
  error notice can appear more often: \<^verbatim>\<open>askStep.Run\<close> shows the recorded error before its
  prompt and leaves the key alone, so that the coordinator shows it once more. What
  holds is the claim for what the coordinator itself emits. The calls are
  \<open>coordinate cs w\<close>; whatever else happens to the bag between them is assumed to leave
  the key in (\<open>keeps_flag\<close>). A call does not take the key out; with the key not yet in
  the bag the calls together add at most one error notice and at most one aborting
  notice (\<^verbatim>\<open>"Interrupted, aborting..."\<close> or \<^verbatim>\<open>"Step ... failed, aborting..."\<close>) to the output,
  with the key in the bag none; and a call made when the key is there and the run is
  cancelled or halted emits the skip notice of its step, nothing else, and returns
  false. The last two parts of the statement are the display of the error by
  \<^verbatim>\<open>askStep.Run\<close>: it leaves the bag as it is.
\<close>

theorem cleanup_dedup:
  assumes env: "\<forall>c\<in>set cs. keeps_flag (fst c)"
  shows "(bag w ''abort_step_logged'' \<noteq> None \<longrightarrow>
            bag (snd (handleAbortsAndInterupts w ui stepName)) ''abort_step_logged'' \<noteq> None \<and>
            bag (coordinate cs w) ''abort_step_logged'' \<noteq> None) \<and>
         length (filter is_error_notice (out (coordinate cs w)))
           \<le> length (filter is_error_notice (out w)) +
              (if bag w ''abort_step_logged'' \<noteq> None then 0 else 1) \<and>
         length (filter is_aborting_notice (out (coordinate cs w)))
           \<le> length (filter is_aborting_notice (out w)) +
              (if bag w ''abort_step_logged'' \<noteq> None then 0 else 1) \<and>
         (bag w ''abort_step_logged'' \<noteq> None \<and>
          (bag w StateCancelled \<noteq> None \<or> bag w StateHalted \<noteq> None) \<longrightarrow>
            handleAbortsAndInterupts w ui stepName =
              (False, ui_Error ui (SkippingCleanup stepName) w)) \<and>
         bag (show_error sui w) = bag w \<and>
         (bag w ''error'' = Some err \<longrightarrow>
            out (show_error sui w) = out w @ [UiError sui (ErrorText err)])"
  using coordinate_counts [OF env, of w] coordinate_keeps_flag [OF env, of w]
    handle_keeps_flag [of w ui stepName] handle_logged [of w ui stepName]
  by (simp add: bag_show_error) (simp add: show_error_def ui_Error_def)

theorem cleanup_dedup_witness:
  "out (coordinate [(\<lambda>b. b, 0, ''StepB''), (\<lambda>b. b, 0, ''StepA'')]
          (state_Put StateHalted (VBool True) (state_Put ''error'' (VErr ''disk full'') (fresh ())))) =
     [UiError 0 (ErrorText (VErr ''disk full'')), UiError 0 (StepFailedAborting ''StepB''),
      UiError 0 (SkippingCleanup ''StepA'')] \<and>
   length (filter is_error_notice
     (out (coordinate [(\<lambda>b. b, 0, ''StepB''), (\<lambda>b. b, 0, ''StepA'')]
            (state_Put StateHalted (VBool True) (state_Put ''error'' (VErr ''disk full'') (fresh ()))))))
     \<le> 1 \<and>
   length (filter is_aborting_notice
     (out (coordinate [(\<lambda>b. b, 0, ''StepB''), (\<lambda>b. b, 0, ''StepA'')]
            (state_Put StateHalted (VBool True) (state_Put ''error'' (VErr ''disk full'') (fresh ()))))))
     \<le> 1 \<and>
   handleAbortsAndInterupts
       (state_Put ''abort_step_logged'' (VBool True) (state_Put StateHalted (VBool True) (fresh ())))
       0 ''StepA'' =
     (False, ui_Error 0 (SkippingCleanup ''StepA'')
               (state_Put ''abort_step_logged'' (VBool True) (state_Put StateHalted (VBool True) (fresh ()))))"
proof -
  let ?cs = "[(\<lambda>b. b, 0, ''StepB''), (\<lambda>b. b, 0, ''StepA'')] :: ((StateBag \<Rightarrow> StateBag) \<times> Ui \<times> string) list"
  let ?w = "state_Put StateHalted (VBool True) (state_Put ''error'' (VErr ''disk full'') (fresh ()))"
  let ?v = "state_Put ''abort_step_logged'' (VBool True) (state_Put StateHalted (VBool True) (fresh ()))"
  have env: "\<forall>c\<in>set ?cs. keeps_flag (fst c)"
    by (simp add: keeps_flag_def)
  have unset: "bag ?w ''abort_step_logged'' = None" "out ?w = []"
    by (simp_all add: state_Put_def fresh_def StateHalted_def)
  have set: "bag ?v ''abort_step_logged'' \<noteq> None" "bag ?v StateHalted \<noteq> None"
    by (simp_all add: state_Put_def fresh_def StateHalted_def)
  have run: "out (coordinate ?cs ?w) =
     [UiError 0 (ErrorText (VErr ''disk full'')), UiError 0 (StepFailedAborting ''StepB''),
      UiError 0 (SkippingCleanup ''StepA'')]"
    by (simp add: handleAbortsAndInterupts_def Let_def state_Put_def fresh_def ui_Error_def
        StateHalted_def StateCancelled_def)
  from cleanup_dedup [OF env, of ?w 0 "''StepA''"] unset
  have counts: "length (filter is_error_notice (out (coordinate ?cs ?w))) \<le> 1"
    "length (filter is_aborting_notice (out (coordinate ?cs ?w))) \<le> 1"
    by simp_all
  from cleanup_dedup [OF env, of ?v 0 "''StepA''"] set
  have later: "handleAbortsAndInterupts ?v 0 ''StepA'' = (False, ui_Error 0 (SkippingCleanup ''StepA'') ?v)"
    by simp
  from run counts later show ?thesis by simp
qed

text \<open>
  A run under the Ask policy: the step fails at once and records its error, and the
  operator answers abort. The runner then records the halt under the halted marker and
  calls the decorator's \<^verbatim>\<open>Cleanup\<close>. The output holds the error notice twice, once from
  \<^verbatim>\<open>askStep.Run\<close> and once from the coordinator.
\<close>

theorem error_shown_twice_under_ask:
  "askStep_Run failing 0 [Answer ''a'' None] (fresh ()) =
     Some (Inr (ActionHalt, [],
       \<lparr>bag = [''ui'' \<mapsto> VUi 0, ''error'' \<mapsto> VErr ''disk full'', ''aborted'' \<mapsto> VBool True],
        out = [UiError 0 (ErrorText (VErr ''disk full'')), UiSay 0 (StepFailed ''StepFailing''), UiAsk 0],
        calls = 1, priv = ()\<rparr>)) \<and>
   out (askStep_Cleanup failing 0
         (state_Put StateHalted (VBool True)
            \<lparr>bag = [''ui'' \<mapsto> VUi 0, ''error'' \<mapsto> VErr ''disk full'', ''aborted'' \<mapsto> VBool True],
             out = [UiError 0 (ErrorText (VErr ''disk full'')), UiSay 0 (StepFailed ''StepFailing''), UiAsk 0],
             calls = 1, priv = ()\<rparr>)) =
     [UiError 0 (ErrorText (VErr ''disk full'')), UiSay 0 (StepFailed ''StepFailing''), UiAsk 0,
      UiError 0 (ErrorText (VErr ''disk full'')), UiError 0 (StepFailedAborting ''StepFailing'')] \<and>
   length (filter is_error_notice
     (out (askStep_Cleanup failing 0
         (state_Put StateHalted (VBool True)
            \<lparr>bag = [''ui'' \<mapsto> VUi 0, ''error'' \<mapsto> VErr ''disk full'', ''aborted'' \<mapsto> VBool True],
             out = [UiError 0 (ErrorText (VErr ''disk full'')), UiSay 0 (StepFailed ''StepFailing''), UiAsk 0],
             calls = 1, priv = ()\<rparr>)))) = 2"
proof -
  have inv: "invoke failing w = (ActionHalt, (state_Put ''error'' (VErr ''disk full'') w)\<lparr>calls := Suc (calls w)\<rparr>)"
    for w :: "unit world"
    by (simp add: invoke_def failing_def)
  have run: "askStep_Run failing 0 [Answer ''a'' None] (fresh ()) =
     Some (Inr (ActionHalt, [],
       \<lparr>bag = [''ui'' \<mapsto> VUi 0, ''error'' \<mapsto> VErr ''disk full'', ''aborted'' \<mapsto> VBool True],
        out = [UiError 0 (ErrorText (VErr ''disk full'')), UiSay 0 (StepFailed ''StepFailing''), UiAsk 0],
        calls = 1, priv = ()\<rparr>))"
    apply (subst askStep_Run.simps)
    apply (simp add: inv)
    apply (simp add: fresh_def state_ui_def state_maxRetries_def retryLoop.simps show_error_def
        ask_def askPrompt_body_parse ui_Say_def ui_Ask_def ui_Error_def state_Put_def)
    apply (simp add: failing_def)
    done
  have cleanup: "out (askStep_Cleanup failing 0
         (state_Put StateHalted (VBool True)
            \<lparr>bag = [''ui'' \<mapsto> VUi 0, ''error'' \<mapsto> VErr ''disk full'', ''aborted'' \<mapsto> VBool True],
             out = [UiError 0 (ErrorText (VErr ''disk full'')), UiSay 0 (StepFailed ''StepFailing''), UiAsk 0],
             calls = 1, priv = ()\<rparr>)) =
     [UiError 0 (ErrorText (VErr ''disk full'')), UiSay 0 (StepFailed ''StepFailing''), UiAsk 0,
      UiError 0 (ErrorText (VErr ''disk full'')), UiError 0 (StepFailedAborting ''StepFailing'')]"
    by (simp add: askStep_Cleanup_def handleAbortsAndInterupts_def Let_def state_Put_def
        ui_Error_def StateHalted_def StateCancelled_def failing_def)
  from run cleanup show ?thesis
    by (simp add: is_error_notice_def)
qed

end
